theory Spec2Isabelle
  imports Complex_Main "HOL-Library.AList" "HOL-Library.Sublist"
begin

section \<open>Data model of the task server (lrc\_task\_server.py)\<close>

text \<open>
  Timestamps and durations are Python floats; they are modelled as \<open>real\<close>, so the
  comparisons of the source are exact comparisons here. The three global dictionaries
  \<open>tasks\<close>, \<open>clients\<close> and \<open>completed_tasks\<close> are association lists in insertion order
  (a Python dict iterates in insertion order, and the scan of \<open>get_task\<close> depends on it).
  The value of \<open>time.time()\<close> is a parameter of every handler that reads the clock.

  No critical section of the server contains an \<open>await\<close>, so \<open>task_lock\<close> is never held
  at a scheduling point of the event loop: acquiring it never suspends, and the bodies
  of \<open>get_task\<close>, \<open>start_processing\<close>, \<open>report_result\<close> and of a sweep of the reaper run
  from their first statement to their return without interleaving. Each of them is one
  function on the state. \<open>upload_result\<close> does suspend while it reads and verifies the
  file, but it never touches \<open>tasks\<close>, and entries of \<open>completed_tasks\<close> are never
  removed; it is one function on the state as well.
\<close>

datatype TaskStatus = PENDING | READING | PROCESSING | COMPLETED | FAILED

datatype pyval =
    PyNone
  | PyBool bool
  | PyInt int
  | PyFloat real
  | PyStr string
  | PyDict "(string \<times> pyval) list"

record Task =
  task_id :: string
  photo_path :: string
  xmp_path :: string
  created_at :: real
  status :: TaskStatus
  client_id :: "string option"
  read_at :: "real option"
  read_timeout :: real
  result :: "(string \<times> pyval) list option"
  file_package_path :: "string option"
  requires_download :: bool

record TaskResult =
  r_task_id :: string
  r_client_id :: string
  r_success :: bool
  r_elapsed_time :: real
  r_error :: "string option"
  r_result_data :: "(string \<times> pyval) list option"

record ClientInfo =
  c_client_id :: string
  c_client_type :: string
  c_capabilities :: "string list"
  c_status :: string
  last_seen :: real
  local_port :: int

text \<open>The descriptor returned by \<open>get_task\<close>: a dict of field values of the claimed task.\<close>

record TaskView =
  v_task_id :: string
  v_photo_path :: string
  v_xmp_path :: string
  v_created_at :: real
  v_requires_download :: bool
  v_file_package_path :: "string option"
  v_read_timeout :: real

text \<open>\<open>HTTPException(status_code, detail)\<close>.\<close>

datatype http_error = HTTPException nat string

text \<open>The success body \<open>{"message": ..., "task_id": ...}\<close> of the mutating handlers.\<close>

datatype ok_body = OkBody string string

record server_state =
  tasks :: "(string \<times> Task) list"
  clients :: "(string \<times> ClientInfo) list"
  completed_tasks :: "(string \<times> Task) list"
  files :: "(string \<times> string) list"

text \<open>
  \<open>files\<close> is the part of the file system below \<open>results_dir\<close>: path to content.
\<close>

section \<open>Registration and submission\<close>

definition register_client :: "server_state \<Rightarrow> ClientInfo \<Rightarrow> real \<Rightarrow> ok_body \<times> server_state" where
  "register_client st client now =
     (let client' = client\<lparr>last_seen := now\<rparr>
      in (OkBody ''Registration successful'' (c_client_id client'),
          st\<lparr>clients := AList.update (c_client_id client') client' (clients st)\<rparr>))"

text \<open>
  \<open>Task(task_id=..., photo_path=..., xmp_path=..., created_at=time.time())\<close> with the
  defaults of the class. The identifier drawn by \<open>uuid4()\<close> is the parameter \<open>new_id\<close>.
\<close>

definition new_task :: "string \<Rightarrow> string \<Rightarrow> string \<Rightarrow> real \<Rightarrow> Task" where
  "new_task new_id photo xmp now =
     \<lparr>task_id = new_id, photo_path = photo, xmp_path = xmp, created_at = now,
      status = PENDING, client_id = None, read_at = None, read_timeout = 10,
      result = None, file_package_path = None, requires_download = False\<rparr>"

definition submit_task :: "server_state \<Rightarrow> string \<Rightarrow> string \<Rightarrow> string \<Rightarrow> real \<Rightarrow> (ok_body \<times> nat) \<times> server_state" where
  "submit_task st new_id photo xmp now =
     (let ts = AList.update new_id (new_task new_id photo xmp now) (tasks st)
      in ((OkBody ''Task submitted'' new_id,
           length (filter (\<lambda>(k, t). status t = PENDING) ts)),
          st\<lparr>tasks := ts\<rparr>))"

section \<open>get\_task: the claim\<close>

text \<open>
  The loop over \<open>tasks.values()\<close>. \<open>available_task\<close> is a reference to an object held by
  the dict, kept here as the entry (key and value); \<open>earliest_time\<close> starts at
  \<open>float('inf')\<close>, which is \<open>None\<close> here.
\<close>

definition lt_earliest :: "real \<Rightarrow> real option \<Rightarrow> bool" where
  "lt_earliest x e = (case e of None \<Rightarrow> True | Some y \<Rightarrow> x < y)"

fun scan_tasks :: "(string \<times> Task) list \<Rightarrow> (string \<times> Task) option \<Rightarrow> real option \<Rightarrow> (string \<times> Task) option" where
  "scan_tasks [] available_task earliest_time = available_task"
| "scan_tasks ((k, t) # rest) available_task earliest_time =
     (if status t = PENDING \<and> lt_earliest (created_at t) earliest_time
      then scan_tasks rest (Some (k, t)) (Some (created_at t))
      else scan_tasks rest available_task earliest_time)"

definition view_of :: "Task \<Rightarrow> TaskView" where
  "view_of t =
     \<lparr>v_task_id = task_id t, v_photo_path = photo_path t, v_xmp_path = xmp_path t,
      v_created_at = created_at t, v_requires_download = requires_download t,
      v_file_package_path = file_package_path t, v_read_timeout = read_timeout t\<rparr>"

definition mark_reading :: "string \<Rightarrow> real \<Rightarrow> Task \<Rightarrow> Task" where
  "mark_reading cid t_read t = t\<lparr>status := READING, client_id := Some cid, read_at := Some t_read\<rparr>"

text \<open>
  \<open>t_seen\<close> and \<open>t_read\<close> are the two readings of the clock, for \<open>last_seen\<close> and for
  \<open>read_at\<close>. The right summand \<open>None\<close> is the empty dict \<open>{}\<close> returned with status 200.
\<close>

definition get_task :: "server_state \<Rightarrow> string \<Rightarrow> real \<Rightarrow> real \<Rightarrow> (http_error + TaskView option) \<times> server_state" where
  "get_task st cid t_seen t_read =
     (case map_of (clients st) cid of
        None \<Rightarrow> (Inl (HTTPException 403 ''Client not registered, please register first''), st)
      | Some info \<Rightarrow>
          (let st1 = st\<lparr>clients := AList.map_entry cid (\<lambda>c. c\<lparr>last_seen := t_seen\<rparr>) (clients st)\<rparr>
           in case scan_tasks (tasks st1) None None of
                None \<Rightarrow> (Inr None, st1)
              | Some (k, t) \<Rightarrow>
                  (Inr (Some (view_of (mark_reading cid t_read t))),
                   st1\<lparr>tasks := AList.map_entry k (mark_reading cid t_read) (tasks st1)\<rparr>)))"

section \<open>start\_processing and report\_result\<close>

text \<open>
  The detail text of the 400 answer, which in the source also prints the status of the
  job, is cut after its fixed part.
\<close>

definition start_processing :: "server_state \<Rightarrow> string \<Rightarrow> string \<Rightarrow> (http_error + ok_body) \<times> server_state" where
  "start_processing st tid cid =
     (case map_of (tasks st) tid of
        None \<Rightarrow> (Inl (HTTPException 404 ''Task does not exist''), st)
      | Some t \<Rightarrow>
          if client_id t \<noteq> Some cid
          then (Inl (HTTPException 403 ''Task does not belong to this client''), st)
          else if status t \<noteq> READING
          then (Inl (HTTPException 400 ''Task status error''), st)
          else (Inr (OkBody ''Processing started'' tid),
                st\<lparr>tasks := AList.map_entry tid (\<lambda>t. t\<lparr>status := PROCESSING\<rparr>) (tasks st)\<rparr>))"

definition result_dict :: "TaskResult \<Rightarrow> real \<Rightarrow> (string \<times> pyval) list" where
  "result_dict r now =
     [(''success'', PyBool (r_success r)),
      (''elapsed_time'', PyFloat (r_elapsed_time r)),
      (''error'', (case r_error r of None \<Rightarrow> PyNone | Some e \<Rightarrow> PyStr e)),
      (''result_data'', (case r_result_data r of None \<Rightarrow> PyNone | Some d \<Rightarrow> PyDict d)),
      (''completed_at'', PyFloat now)]"

definition finish :: "TaskResult \<Rightarrow> real \<Rightarrow> Task \<Rightarrow> Task" where
  "finish r now t =
     t\<lparr>status := (if r_success r then COMPLETED else FAILED),
       result := Some (result_dict r now)\<rparr>"

definition report_result :: "server_state \<Rightarrow> TaskResult \<Rightarrow> real \<Rightarrow> (http_error + ok_body) \<times> server_state" where
  "report_result st r now =
     (let tid = r_task_id r
      in case map_of (tasks st) tid of
           None \<Rightarrow> (Inl (HTTPException 404 ''Task does not exist''), st)
         | Some t \<Rightarrow>
             if client_id t \<noteq> Some (r_client_id r)
             then (Inl (HTTPException 403 ''Task does not belong to this client''), st)
             else (Inr (OkBody ''Result recorded'' tid),
                   st\<lparr>completed_tasks := AList.update tid (finish r now t) (completed_tasks st),
                      tasks := AList.delete tid (tasks st)\<rparr>))"

section \<open>cleanup\_old\_tasks: one sweep of the reaper\<close>

text \<open>
  \<open>task.read_at and current_time - task.read_at > task.read_timeout\<close>: a float is
  truthy when it is not \<open>0.0\<close>, \<open>None\<close> is falsy.
\<close>

definition reading_timed_out :: "real \<Rightarrow> Task \<Rightarrow> bool" where
  "reading_timed_out current_time t =
     (status t = READING \<and>
      (case read_at t of None \<Rightarrow> False
       | Some r \<Rightarrow> r \<noteq> 0 \<and> current_time - r > read_timeout t))"

definition processing_timed_out :: "real \<Rightarrow> Task \<Rightarrow> bool" where
  "processing_timed_out current_time t =
     (status t = PROCESSING \<and> current_time - created_at t > 1800)"

definition reset_to_pending :: "Task \<Rightarrow> Task" where
  "reset_to_pending t = t\<lparr>status := PENDING, client_id := None, read_at := None\<rparr>"

definition collect_ids :: "('v \<Rightarrow> bool) \<Rightarrow> (string \<times> 'v) list \<Rightarrow> string list" where
  "collect_ids P xs = map fst (filter (\<lambda>(k, v). P v) xs)"

definition reset_all :: "string list \<Rightarrow> (string \<times> Task) list \<Rightarrow> (string \<times> Task) list" where
  "reset_all ids ts = fold (\<lambda>k. AList.map_entry k reset_to_pending) ids ts"

definition client_offline :: "real \<Rightarrow> ClientInfo \<Rightarrow> bool" where
  "client_offline current_time info = (current_time - last_seen info > 600)"

text \<open>The body of the \<open>try\<close> of one iteration of \<open>while True\<close>, before the sleep.\<close>

definition cleanup_old_tasks :: "server_state \<Rightarrow> real \<Rightarrow> server_state" where
  "cleanup_old_tasks st current_time =
     (let ts1 = reset_all (collect_ids (reading_timed_out current_time) (tasks st)) (tasks st);
          ts2 = reset_all (collect_ids (processing_timed_out current_time) ts1) ts1;
          offline_clients = collect_ids (client_offline current_time) (clients st)
      in st\<lparr>tasks := ts2, clients := fold AList.delete offline_clients (clients st)\<rparr>)"

section \<open>upload\_result\<close>

text \<open>
  The retry configuration, at the defaults of the module (each can be overridden by an
  environment variable).
\<close>

definition MAX_FILE_WAIT_RETRIES :: nat where "MAX_FILE_WAIT_RETRIES = 5"
definition FILE_WAIT_TIMEOUT :: real where "FILE_WAIT_TIMEOUT = 180"
definition RETRY_DELAY :: real where "RETRY_DELAY = 2"
definition BACKOFF_FACTOR :: real where "BACKOFF_FACTOR = 3 / 2"
definition results_dir :: string where "results_dir = ''lr_caches/lightroom_results''"

text \<open>
  The \<open>while\<close> loop of \<open>wait_for_file_with_retries\<close>. The clock \<open>now\<close> advances by the
  duration of every \<open>asyncio.sleep\<close>; the file system does not change while the loop
  runs. The result carries the clock at the return.
\<close>

function wait_loop :: "(string \<times> string) list \<Rightarrow> string \<Rightarrow> real \<Rightarrow> real \<Rightarrow> real \<Rightarrow> nat \<Rightarrow> real \<Rightarrow> bool \<times> real" where
  "wait_loop fs file_path timeout start_time now retry_count current_delay =
     (if now - start_time < timeout \<and> retry_count < MAX_FILE_WAIT_RETRIES
      then (case map_of fs file_path of
              Some content \<Rightarrow>
                if 0 < length content then (True, now + 1 / 2)
                else wait_loop fs file_path timeout start_time (now + 1 / 2 + current_delay)
                       (Suc retry_count) (min (current_delay * BACKOFF_FACTOR) 30)
            | None \<Rightarrow>
                wait_loop fs file_path timeout start_time (now + current_delay)
                  (Suc retry_count) (min (current_delay * BACKOFF_FACTOR) 30))
      else (False, now))"
  by pat_completeness auto
termination
  by (relation "measure (\<lambda>(fs, file_path, timeout, start_time, now, retry_count, current_delay).
        MAX_FILE_WAIT_RETRIES - retry_count)") auto

declare wait_loop.simps [simp del]

definition wait_for_file_with_retries :: "(string \<times> string) list \<Rightarrow> string \<Rightarrow> real option \<Rightarrow> real \<Rightarrow> bool \<times> real" where
  "wait_for_file_with_retries fs file_path timeout now =
     wait_loop fs file_path (case timeout of None \<Rightarrow> FILE_WAIT_TIMEOUT | Some t \<Rightarrow> t)
       now now 0 RETRY_DELAY"

text \<open>
  \<open>task.result.update({...})\<close>, after \<open>if not task.result: task.result = {}\<close>.
\<close>

definition attach_upload :: "string \<Rightarrow> real \<Rightarrow> nat \<Rightarrow> Task \<Rightarrow> Task" where
  "attach_upload processed_path upload_timestamp file_size t =
     t\<lparr>result := Some
         (AList.update ''file_size'' (PyInt (int file_size))
           (AList.update ''upload_timestamp'' (PyFloat upload_timestamp)
             (AList.update ''processed_image_path'' (PyStr processed_path)
               (case result t of None \<Rightarrow> [] | Some d \<Rightarrow> d))))\<rparr>"

text \<open>The body \<open>{"message", "task_id", "saved_path", "result_folder", "file_size"}\<close>.\<close>

datatype upload_body = UploadBody string string string string nat

text \<open>
  The upload is written to \<open>processed.tmp\<close>, renamed to \<open>processed.jpg\<close> and verified.
  Writing and renaming are taken to succeed; the only failure raised inside the \<open>try\<close>
  is the failed verification, which the handler turns into status 500. After the rename
  the temporary path does not exist, so the \<open>except\<close> branch has nothing to unlink.
\<close>

definition upload_result :: "server_state \<Rightarrow> string \<Rightarrow> string \<Rightarrow> real \<Rightarrow> (http_error + upload_body) \<times> server_state" where
  "upload_result st tid content now =
     (case map_of (completed_tasks st) tid of
        None \<Rightarrow> (Inl (HTTPException 404 ''Task does not exist or not completed''), st)
      | Some _ \<Rightarrow>
          (let task_result_dir = results_dir @ ''/'' @ tid;
               processed_path = task_result_dir @ ''/processed.jpg'';
               temp_path = task_result_dir @ ''/processed.tmp'';
               fs1 = AList.update temp_path content (files st);
               fs2 = AList.update processed_path content (AList.delete temp_path fs1);
               (ok, now') = wait_for_file_with_retries fs2 processed_path (Some 30) now
           in if \<not> ok
              then (Inl (HTTPException 500 ''Save failed''), st\<lparr>files := fs2\<rparr>)
              else (Inr (UploadBody ''Processing result uploaded successfully'' tid
                           processed_path task_result_dir (length content)),
                    st\<lparr>files := fs2,
                       completed_tasks :=
                         AList.map_entry tid (attach_upload processed_path now' (length content))
                           (completed_tasks st)\<rparr>)))"

section \<open>The worker's timeout estimate (lr\_task\_client.py)\<close>

record client_config =
  base_processing_timeout :: real
  mask_increment_seconds :: real
  complex_increment_seconds :: real
  max_timeout_mask :: real
  max_timeout_complex :: real

text \<open>\<open>sub in s\<close> on Python strings.\<close>

fun str_contains :: "string \<Rightarrow> string \<Rightarrow> bool" where
  "str_contains sub [] = (sub = [])"
| "str_contains sub (c # cs) = (prefix sub (c # cs) \<or> str_contains sub cs)"

text \<open>
  \<open>s.count(sub)\<close>: the number of non-overlapping occurrences, scanning from the left.
  \<open>skip\<close> is the number of characters of the last match still to be passed over.
\<close>

fun count_from :: "string \<Rightarrow> nat \<Rightarrow> string \<Rightarrow> nat" where
  "count_from sub skip [] = 0"
| "count_from sub skip (c # cs) =
     (if 0 < skip then count_from sub (skip - 1) cs
      else if prefix sub (c # cs) then Suc (count_from sub (length sub - 1) cs)
      else count_from sub 0 cs)"

definition str_count :: "string \<Rightarrow> string \<Rightarrow> nat" where
  "str_count s sub = (if sub = [] then Suc (length s) else count_from sub 0 s)"

definition complex_operations :: "string list" where
  "complex_operations =
     [''LocalizedCorrections'', ''CircularGradientBasedCorrections'',
      ''GradientBasedCorrections'', ''RetouchAreas'']"

definition mask_marker :: string where
  \<open>mask_marker = ''What = "Mask/Image"''\<close>

text \<open>
  The argument is the content read from \<open>xmp_path\<close>, \<open>None\<close> when opening or decoding the
  file raises; the \<open>except\<close> branch then returns 30.
\<close>

definition calculate_processing_timeout :: "client_config \<Rightarrow> string option \<Rightarrow> real" where
  "calculate_processing_timeout self file_content =
     (case file_content of
        None \<Rightarrow> 30
      | Some lua_content \<Rightarrow>
          (let base_timeout = base_processing_timeout self
           in if str_contains ''MaskGroupBasedCorrections'' lua_content
              then (let actual_mask_count = str_count lua_content mask_marker;
                        mask_timeout = base_timeout + real actual_mask_count * mask_increment_seconds self
                    in min mask_timeout (max_timeout_mask self))
              else (let complex_count = length (filter (\<lambda>op. str_contains op lua_content) complex_operations)
                    in if 0 < complex_count
                       then min (base_timeout + real complex_count * complex_increment_seconds self)
                              (max_timeout_complex self)
                       else base_timeout)))"

section \<open>Predicates used in the statements\<close>

text \<open>
  \<open>first_earliest pre post r\<close>: the entry \<open>r\<close> is PENDING, every PENDING entry before it
  in the scan order was created strictly later, and no PENDING entry after it was
  created earlier. So \<open>r\<close> is the first entry, in scan order, among the PENDING entries
  with the smallest \<open>created_at\<close>.
\<close>

definition first_earliest :: "(string \<times> Task) list \<Rightarrow> (string \<times> Task) list \<Rightarrow> string \<times> Task \<Rightarrow> bool" where
  "first_earliest pre post r \<longleftrightarrow>
     status (snd r) = PENDING \<and>
     (\<forall>(k', t') \<in> set pre. status t' = PENDING \<longrightarrow> created_at (snd r) < created_at t') \<and>
     (\<forall>(k', t') \<in> set post. status t' = PENDING \<longrightarrow> created_at (snd r) \<le> created_at t')"

section \<open>Concrete stores used to instantiate the theorems\<close>

definition demo_client :: "string \<Rightarrow> real \<Rightarrow> ClientInfo" where
  "demo_client cid seen =
     \<lparr>c_client_id = cid, c_client_type = ''lightroom_bridge'',
      c_capabilities = [''photo_processing''], c_status = ''ready'',
      last_seen = seen, local_port = 7777\<rparr>"

definition idle_state :: server_state where
  "idle_state =
     \<lparr>tasks = [(''j1'', (new_task ''j1'' ''a.jpg'' ''a.lua'' 1)
                           \<lparr>status := PROCESSING, client_id := Some ''w1'', read_at := Some 2\<rparr>)],
      clients = [(''w1'', demo_client ''w1'' 2)],
      completed_tasks = [], files = []\<rparr>"

definition queue_state :: server_state where
  "queue_state =
     \<lparr>tasks = [(''j1'', new_task ''j1'' ''a.jpg'' ''a.lua'' 5),
               (''j2'', new_task ''j2'' ''b.jpg'' ''b.lua'' 3),
               (''j3'', new_task ''j3'' ''c.jpg'' ''c.lua'' 3)],
      clients = [(''w1'', demo_client ''w1'' 6)],
      completed_tasks = [], files = []\<rparr>"

definition held_state :: server_state where
  "held_state =
     \<lparr>tasks = [(''j1'', (new_task ''j1'' ''a.jpg'' ''a.lua'' 1)
                           \<lparr>status := READING, client_id := Some ''w1'', read_at := Some 2\<rparr>),
               (''j2'', (new_task ''j2'' ''b.jpg'' ''b.lua'' 1)
                           \<lparr>status := PROCESSING, client_id := Some ''w1'', read_at := Some 3\<rparr>),
               (''j3'', new_task ''j3'' ''c.jpg'' ''c.lua'' 4)],
      clients = [(''w1'', demo_client ''w1'' 3), (''w2'', demo_client ''w2'' 3)],
      completed_tasks = [], files = []\<rparr>"

definition demo_result :: "string \<Rightarrow> string \<Rightarrow> bool \<Rightarrow> TaskResult" where
  "demo_result tid cid ok =
     \<lparr>r_task_id = tid, r_client_id = cid, r_success = ok, r_elapsed_time = 4,
      r_error = (if ok then None else Some ''backend error''), r_result_data = None\<rparr>"

text \<open>The store after worker \<open>w1\<close> has reported a failure for job \<open>j1\<close> of \<open>held_state\<close>.\<close>

definition failed_archive_state :: server_state where
  "failed_archive_state = snd (report_result held_state (demo_result ''j1'' ''w1'' False) 9)"

definition demo_config :: client_config where
  "demo_config =
     \<lparr>base_processing_timeout = 5, mask_increment_seconds = 5, complex_increment_seconds = 3,
      max_timeout_mask = 120, max_timeout_complex = 60\<rparr>"

definition three_masks_lua :: string where
  \<open>three_masks_lua =
     ''MaskGroupBasedCorrections = { { What = "Mask/Image" }, { What = "Mask/Image" }, { What = "Mask/Image" } }''\<close>

definition plain_lua :: string where
  "plain_lua = ''Exposure2012 = 0.5, Contrast2012 = 10''"

definition empty_state :: server_state where
  "empty_state = \<lparr>tasks = [], clients = [], completed_tasks = [], files = []\<rparr>"

text \<open>
  Workers \<open>w1\<close> and \<open>w2\<close> register at time 0, job \<open>j1\<close> is submitted at time 0, and \<open>w1\<close>
  claims it at time 1 and is never heard of again.
\<close>

definition crash_state :: server_state where
  "crash_state =
     snd (get_task
            (snd (submit_task
                    (snd (register_client
                            (snd (register_client empty_state (demo_client ''w1'' 0) 0))
                            (demo_client ''w2'' 0) 0))
                    ''j1'' ''a.jpg'' ''a.lua'' 0))
            ''w1'' 1 1)"

text \<open>
  Job \<open>j1\<close> is submitted at time 0; worker \<open>w1\<close> registers at time 1790, claims the job
  at time 1795 and confirms it.
\<close>

definition late_start_state :: server_state where
  "late_start_state =
     snd (start_processing
            (snd (get_task
                    (snd (register_client
                            (snd (submit_task empty_state ''j1'' ''a.jpg'' ''a.lua'' 0))
                            (demo_client ''w1'' 1790) 1790))
                    ''w1'' 1795 1795))
            ''j1'' ''w1'')"

text \<open>
  Job \<open>j1\<close> is submitted and worker \<open>w1\<close> registers at time 0; \<open>w1\<close> claims the job at
  time 1 and confirms it. The reaper sweeps at time 700.
\<close>

definition busy_state :: server_state where
  "busy_state =
     snd (start_processing
            (snd (get_task
                    (snd (register_client
                            (snd (submit_task empty_state ''j1'' ''a.jpg'' ''a.lua'' 0))
                            (demo_client ''w1'' 0) 0))
                    ''w1'' 1 1))
            ''j1'' ''w1'')"

definition purged_state :: server_state where
  "purged_state = cleanup_old_tasks busy_state 700"

text \<open>A store in which the owner of a READING job has no registration record.\<close>

definition orphan_state :: server_state where
  "orphan_state =
     \<lparr>tasks = [(''j1'', (new_task ''j1'' ''a.jpg'' ''a.lua'' 0)
                           \<lparr>status := READING, client_id := Some ''w1'', read_at := Some 1\<rparr>)],
      clients = [], completed_tasks = [], files = []\<rparr>"

section \<open>Sequences of requests\<close>

text \<open>
  The requests of workers, in the order in which the server handles them. Each handler
  is one step, so an interleaving of concurrent calls is a list of requests.
\<close>

datatype request =
    GetTask string real real
  | StartProcessing string string
  | ReportResult TaskResult real
  | UploadResult string string real
  | RegisterClient ClientInfo real

text \<open>The worker and the job id of a successful claim.\<close>

definition handed_out :: "string \<Rightarrow> http_error + TaskView option \<Rightarrow> (string \<times> string) option" where
  "handed_out cid resp =
     (case resp of Inr (Some v) \<Rightarrow> Some (cid, v_task_id v) | _ \<Rightarrow> None)"

fun handle :: "server_state \<Rightarrow> request \<Rightarrow> (string \<times> string) option \<times> server_state" where
  "handle st (GetTask cid t_seen t_read) =
     (let (resp, st') = get_task st cid t_seen t_read in (handed_out cid resp, st'))"
| "handle st (StartProcessing tid cid) = (None, snd (start_processing st tid cid))"
| "handle st (ReportResult r now) = (None, snd (report_result st r now))"
| "handle st (UploadResult tid content now) = (None, snd (upload_result st tid content now))"
| "handle st (RegisterClient client now) = (None, snd (register_client st client now))"

fun run :: "server_state \<Rightarrow> request list \<Rightarrow> (string \<times> string) list \<times> server_state" where
  "run st [] = ([], st)"
| "run st (rq # rqs) =
     (let (h, st1) = handle st rq;
          (hs, st2) = run st1 rqs
      in ((case h of None \<Rightarrow> hs | Some p \<Rightarrow> p # hs), st2))"

definition pending_ids :: "(string \<times> Task) list \<Rightarrow> string set" where
  "pending_ids ts = set (collect_ids (\<lambda>t. status t = PENDING) ts)"

text \<open>
  The shape of the active store: a dict (keys are distinct) whose jobs are stored under
  their own id, and whose PENDING jobs have no owner. \<open>submit_task\<close> stores a job so, and
  every handler keeps it so.
\<close>

definition wf_tasks :: "(string \<times> Task) list \<Rightarrow> bool" where
  "wf_tasks ts \<longleftrightarrow>
     distinct (map fst ts) \<and>
     list_all (\<lambda>(k, t). task_id t = k \<and> (status t = PENDING \<longrightarrow> client_id t = None)) ts"

definition demo_requests :: "request list" where
  "demo_requests =
     [GetTask ''w1'' 7 7,
      GetTask ''w2'' 8 8,
      RegisterClient (demo_client ''w2'' 0) 9,
      GetTask ''w2'' 10 10,
      StartProcessing ''j2'' ''w1'',
      GetTask ''w1'' 11 11,
      ReportResult (demo_result ''j2'' ''w1'' True) 12,
      GetTask ''w2'' 13 13]"

section \<open>Properties of the claim scan\<close>

lemma scan_tasks_acc_not_None: "scan_tasks xs (Some a) e \<noteq> None"
  by (induction xs arbitrary: a e) auto

lemma scan_tasks_None_iff:
  "scan_tasks xs None None = None \<longleftrightarrow> (\<forall>(k, t) \<in> set xs. status t \<noteq> PENDING)"
proof (induction xs)
  case Nil
  then show ?case by simp
next
  case (Cons x xs)
  obtain k t where x: "x = (k, t)" by (cases x)
  show ?case
  proof (cases "status t = PENDING")
    case True
    then show ?thesis using x by (simp add: lt_earliest_def scan_tasks_acc_not_None)
  next
    case False
    then show ?thesis using x Cons.IH by simp
  qed
qed

lemma scan_tasks_acc:
  "scan_tasks xs (Some a) (Some (created_at (snd a))) = Some r \<Longrightarrow>
     (r = a \<and> (\<forall>(k', t') \<in> set xs. status t' = PENDING \<longrightarrow> created_at (snd a) \<le> created_at t')) \<or>
     (created_at (snd r) < created_at (snd a) \<and>
      (\<exists>pre post. xs = pre @ r # post \<and> first_earliest pre post r))"
proof (induction xs arbitrary: a)
  case Nil
  then show ?case by simp
next
  case (Cons x xs)
  obtain k t where x: "x = (k, t)" by (cases x)
  show ?case
  proof (cases "status t = PENDING \<and> created_at t < created_at (snd a)")
    case True
    with Cons.prems x have "scan_tasks xs (Some (k, t)) (Some (created_at (snd (k, t)))) = Some r"
      by (simp add: lt_earliest_def)
    from Cons.IH [OF this] show ?thesis
    proof
      assume h: "r = (k, t) \<and> (\<forall>(k', t') \<in> set xs. status t' = PENDING \<longrightarrow> created_at (snd (k, t)) \<le> created_at t')"
      then have "x # xs = [] @ r # xs \<and> first_earliest [] xs r"
        using True x by (auto simp: first_earliest_def)
      then show ?thesis using True h by fastforce
    next
      assume h: "created_at (snd r) < created_at (snd (k, t)) \<and>
        (\<exists>pre post. xs = pre @ r # post \<and> first_earliest pre post r)"
      then obtain pre post where pp: "xs = pre @ r # post" "first_earliest pre post r" by blast
      have "x # xs = (x # pre) @ r # post \<and> first_earliest (x # pre) post r"
        using pp h x by (auto simp: first_earliest_def)
      moreover have "created_at (snd r) < created_at (snd a)" using h True by simp
      ultimately show ?thesis by blast
    qed
  next
    case False
    with Cons.prems x have "scan_tasks xs (Some a) (Some (created_at (snd a))) = Some r"
      by (auto simp: lt_earliest_def)
    from Cons.IH [OF this] show ?thesis
    proof
      assume "r = a \<and> (\<forall>(k', t') \<in> set xs. status t' = PENDING \<longrightarrow> created_at (snd a) \<le> created_at t')"
      then show ?thesis using False x by auto
    next
      assume h: "created_at (snd r) < created_at (snd a) \<and>
        (\<exists>pre post. xs = pre @ r # post \<and> first_earliest pre post r)"
      then obtain pre post where pp: "xs = pre @ r # post" "first_earliest pre post r" by blast
      have "x # xs = (x # pre) @ r # post \<and> first_earliest (x # pre) post r"
        using pp h x False by (auto simp: first_earliest_def)
      then show ?thesis using h by blast
    qed
  qed
qed

lemma scan_tasks_Some:
  "scan_tasks xs None None = Some r \<Longrightarrow> \<exists>pre post. xs = pre @ r # post \<and> first_earliest pre post r"
proof (induction xs)
  case Nil
  then show ?case by simp
next
  case (Cons x xs)
  obtain k t where x: "x = (k, t)" by (cases x)
  show ?case
  proof (cases "status t = PENDING")
    case True
    with Cons.prems x have "scan_tasks xs (Some (k, t)) (Some (created_at (snd (k, t)))) = Some r"
      by (simp add: lt_earliest_def)
    from scan_tasks_acc [OF this] show ?thesis
    proof
      assume "r = (k, t) \<and> (\<forall>(k', t') \<in> set xs. status t' = PENDING \<longrightarrow> created_at (snd (k, t)) \<le> created_at t')"
      then have "x # xs = [] @ r # xs \<and> first_earliest [] xs r"
        using True x by (auto simp: first_earliest_def)
      then show ?thesis by blast
    next
      assume h: "created_at (snd r) < created_at (snd (k, t)) \<and>
        (\<exists>pre post. xs = pre @ r # post \<and> first_earliest pre post r)"
      then obtain pre post where pp: "xs = pre @ r # post" "first_earliest pre post r" by blast
      have "x # xs = (x # pre) @ r # post \<and> first_earliest (x # pre) post r"
        using pp h x by (auto simp: first_earliest_def)
      then show ?thesis by blast
    qed
  next
    case False
    with Cons.prems x have "scan_tasks xs None None = Some r" by simp
    from Cons.IH [OF this] obtain pre post where pp: "xs = pre @ r # post" "first_earliest pre post r" by blast
    have "x # xs = (x # pre) @ r # post \<and> first_earliest (x # pre) post r"
      using pp x False by (auto simp: first_earliest_def)
    then show ?thesis by blast
  qed
qed

lemma map_entry_split:
  "k \<notin> fst ` set pre \<Longrightarrow> AList.map_entry k f (pre @ (k, v) # post) = pre @ (k, f v) # post"
  by (induction pre) auto


section \<open>The claim: which job is handed out\<close>

text \<open>
  Claim C2. Whenever at least one PENDING job exists and the caller is registered,
  \<open>get_task\<close> returns the descriptor of the PENDING job with the smallest \<open>created_at\<close>,
  the first such job in scan order when several share that value. Exactly that entry of
  the store changes: it becomes READING, owned by the caller, with \<open>read_at\<close> the time of
  the claim. The descriptor is a record of the job's field values.
\<close>

theorem get_task_returns_earliest_pending:
  assumes "distinct (map fst (tasks st))"
    and "map_of (clients st) cid = Some info"
    and "\<exists>(k, t) \<in> set (tasks st). status t = PENDING"
  shows "\<exists>pre k t post.
           tasks st = pre @ (k, t) # post \<and> first_earliest pre post (k, t) \<and>
           get_task st cid t_seen t_read =
             (Inr (Some \<lparr>v_task_id = task_id t, v_photo_path = photo_path t,
                         v_xmp_path = xmp_path t, v_created_at = created_at t,
                         v_requires_download = requires_download t,
                         v_file_package_path = file_package_path t,
                         v_read_timeout = read_timeout t\<rparr>),
              st\<lparr>clients := AList.map_entry cid (\<lambda>c. c\<lparr>last_seen := t_seen\<rparr>) (clients st),
                 tasks := pre @ (k, t\<lparr>status := READING, client_id := Some cid,
                                       read_at := Some t_read\<rparr>) # post\<rparr>)"
proof -
  from assms(3) have "scan_tasks (tasks st) None None \<noteq> None"
    by (auto simp: scan_tasks_None_iff)
  then obtain k t where r: "scan_tasks (tasks st) None None = Some (k, t)"
    by (cases "scan_tasks (tasks st) None None") auto
  from scan_tasks_Some [OF r] obtain pre post
    where pp: "tasks st = pre @ (k, t) # post" "first_earliest pre post (k, t)" by blast
  from assms(1) pp(1) have "k \<notin> fst ` set pre" by auto
  then have me: "AList.map_entry k (mark_reading cid t_read) (tasks st) =
      pre @ (k, mark_reading cid t_read t) # post"
    using pp(1) by (simp add: map_entry_split)
  have "get_task st cid t_seen t_read =
      (Inr (Some (view_of (mark_reading cid t_read t))),
       st\<lparr>clients := AList.map_entry cid (\<lambda>c. c\<lparr>last_seen := t_seen\<rparr>) (clients st),
          tasks := pre @ (k, mark_reading cid t_read t) # post\<rparr>)"
    using assms(2) r me by (simp add: get_task_def)
  then have "tasks st = pre @ (k, t) # post \<and> first_earliest pre post (k, t) \<and>
           get_task st cid t_seen t_read =
             (Inr (Some \<lparr>v_task_id = task_id t, v_photo_path = photo_path t,
                         v_xmp_path = xmp_path t, v_created_at = created_at t,
                         v_requires_download = requires_download t,
                         v_file_package_path = file_package_path t,
                         v_read_timeout = read_timeout t\<rparr>),
              st\<lparr>clients := AList.map_entry cid (\<lambda>c. c\<lparr>last_seen := t_seen\<rparr>) (clients st),
                 tasks := pre @ (k, t\<lparr>status := READING, client_id := Some cid,
                                       read_at := Some t_read\<rparr>) # post\<rparr>)"
    using pp by (simp add: view_of_def mark_reading_def)
  then show ?thesis by blast
qed

theorem get_task_returns_earliest_pending_witness:
  "distinct (map fst (tasks queue_state)) \<and>
   map_of (clients queue_state) ''w1'' = Some (demo_client ''w1'' 6) \<and>
   (\<exists>(k, t) \<in> set (tasks queue_state). status t = PENDING) \<and>
   fst (get_task queue_state ''w1'' 7 8) = Inr (Some (view_of (new_task ''j2'' ''b.jpg'' ''b.lua'' 3))) \<and>
   (\<exists>pre k t post.
      tasks queue_state = pre @ (k, t) # post \<and> first_earliest pre post (k, t) \<and>
      snd (get_task queue_state ''w1'' 7 8) =
        queue_state\<lparr>clients := AList.map_entry ''w1'' (\<lambda>c. c\<lparr>last_seen := 7\<rparr>) (clients queue_state),
                    tasks := pre @ (k, t\<lparr>status := READING, client_id := Some ''w1'',
                                          read_at := Some 8\<rparr>) # post\<rparr>)"
proof -
  have a: "distinct (map fst (tasks queue_state))"
    by (simp add: queue_state_def)
  have b: "map_of (clients queue_state) ''w1'' = Some (demo_client ''w1'' 6)"
    by (simp add: queue_state_def)
  have c: "\<exists>(k, t) \<in> set (tasks queue_state). status t = PENDING"
    by (simp add: queue_state_def new_task_def)
  have d: "fst (get_task queue_state ''w1'' 7 8) = Inr (Some (view_of (new_task ''j2'' ''b.jpg'' ''b.lua'' 3)))"
    by (simp add: get_task_def queue_state_def new_task_def lt_earliest_def view_of_def mark_reading_def)
  from get_task_returns_earliest_pending [OF a b c, of 7 8]
  have "\<exists>pre k t post.
      tasks queue_state = pre @ (k, t) # post \<and> first_earliest pre post (k, t) \<and>
      snd (get_task queue_state ''w1'' 7 8) =
        queue_state\<lparr>clients := AList.map_entry ''w1'' (\<lambda>c. c\<lparr>last_seen := 7\<rparr>) (clients queue_state),
                    tasks := pre @ (k, t\<lparr>status := READING, client_id := Some ''w1'',
                                          read_at := Some 8\<rparr>) # post\<rparr>"
    by force
  with a b c d show ?thesis by blast
qed

text \<open>
  Claim C9. A request from a client id that is not registered is answered with status
  403 and leaves the state as it was. A request from a registered client when no job is
  PENDING succeeds with the empty descriptor and changes no job. No request is ever
  answered with another error status than 403, so never with 404.
\<close>

theorem get_task_unregistered_or_idle:
  "(map_of (clients st) cid = None \<longrightarrow>
      get_task st cid t_seen t_read =
        (Inl (HTTPException 403 ''Client not registered, please register first''), st)) \<and>
   (map_of (clients st) cid \<noteq> None \<and> (\<forall>(k, t) \<in> set (tasks st). status t \<noteq> PENDING) \<longrightarrow>
      fst (get_task st cid t_seen t_read) = Inr None \<and>
      tasks (snd (get_task st cid t_seen t_read)) = tasks st) \<and>
   (\<forall>code detail. fst (get_task st cid t_seen t_read) = Inl (HTTPException code detail) \<longrightarrow> code = 403)"
proof (intro conjI impI allI)
  assume "map_of (clients st) cid = None"
  then show "get_task st cid t_seen t_read =
        (Inl (HTTPException 403 ''Client not registered, please register first''), st)"
    by (simp add: get_task_def)
next
  assume a: "map_of (clients st) cid \<noteq> None \<and> (\<forall>(k, t) \<in> set (tasks st). status t \<noteq> PENDING)"
  then have "scan_tasks (tasks st) None None = None" by (simp add: scan_tasks_None_iff)
  with a show "fst (get_task st cid t_seen t_read) = Inr None"
    by (auto simp: get_task_def)
  from a \<open>scan_tasks (tasks st) None None = None\<close>
  show "tasks (snd (get_task st cid t_seen t_read)) = tasks st"
    by (auto simp: get_task_def)
next
  fix code detail
  assume "fst (get_task st cid t_seen t_read) = Inl (HTTPException code detail)"
  then show "code = 403"
    by (cases "map_of (clients st) cid"; cases "scan_tasks (tasks st) None None")
       (auto simp: get_task_def)
qed



theorem get_task_unregistered_or_idle_witness:
  "map_of (clients idle_state) ''w2'' = None \<and>
   get_task idle_state ''w2'' 3 3 =
     (Inl (HTTPException 403 ''Client not registered, please register first''), idle_state) \<and>
   map_of (clients idle_state) ''w1'' \<noteq> None \<and>
   filter (\<lambda>(k, t). status t = PENDING) (tasks idle_state) = [] \<and>
   fst (get_task idle_state ''w1'' 3 3) = Inr None"
proof -
  have a: "map_of (clients idle_state) ''w2'' = None"
    by (simp add: idle_state_def)
  have b: "map_of (clients idle_state) ''w1'' \<noteq> None \<and>
           (\<forall>(k, t) \<in> set (tasks idle_state). status t \<noteq> PENDING)"
    by (simp add: idle_state_def new_task_def)
  from a get_task_unregistered_or_idle [of idle_state "''w2''" 3 3]
  have c: "get_task idle_state ''w2'' 3 3 =
     (Inl (HTTPException 403 ''Client not registered, please register first''), idle_state)"
    by blast
  from b get_task_unregistered_or_idle [of idle_state "''w1''" 3 3]
  have d: "fst (get_task idle_state ''w1'' 3 3) = Inr None"
    by blast
  have e: "filter (\<lambda>(k, t). status t = PENDING) (tasks idle_state) = []"
    by (simp add: idle_state_def new_task_def)
  from a b c d e show ?thesis by blast
qed

section \<open>Ownership checks of start\_processing and report\_result\<close>

text \<open>
  Claim C4. For a job of the active store whose owner differs from the calling worker id
  (also when the job has no owner), \<open>start_processing\<close> and \<open>report_result\<close> both fail
  with status 403 and return the state unchanged. \<open>start_processing\<close> fails with 404 for
  an id that is not in the active store and with 400 when the caller owns the job but
  the job is not READING; it succeeds, moving the job from READING to PROCESSING,
  exactly in the remaining case.
\<close>

theorem owner_mismatch_forbidden:
  "(map_of (tasks st) tid = Some t \<and> client_id t \<noteq> Some cid \<longrightarrow>
      start_processing st tid cid =
        (Inl (HTTPException 403 ''Task does not belong to this client''), st)) \<and>
   (map_of (tasks st) (r_task_id r) = Some t \<and> client_id t \<noteq> Some (r_client_id r) \<longrightarrow>
      report_result st r now =
        (Inl (HTTPException 403 ''Task does not belong to this client''), st)) \<and>
   (map_of (tasks st) tid = None \<longrightarrow>
      start_processing st tid cid = (Inl (HTTPException 404 ''Task does not exist''), st)) \<and>
   (map_of (tasks st) tid = Some t \<and> client_id t = Some cid \<and> status t \<noteq> READING \<longrightarrow>
      (\<exists>detail. start_processing st tid cid = (Inl (HTTPException 400 detail), st))) \<and>
   (map_of (tasks st) tid = Some t \<and> client_id t = Some cid \<and> status t = READING \<longrightarrow>
      start_processing st tid cid =
        (Inr (OkBody ''Processing started'' tid),
         st\<lparr>tasks := AList.map_entry tid (\<lambda>t. t\<lparr>status := PROCESSING\<rparr>) (tasks st)\<rparr>) \<and>
      map_of (tasks (snd (start_processing st tid cid))) tid = Some (t\<lparr>status := PROCESSING\<rparr>)) \<and>
   (\<forall>body. fst (start_processing st tid cid) = Inr body \<longrightarrow>
      (\<exists>t'. map_of (tasks st) tid = Some t' \<and> client_id t' = Some cid \<and> status t' = READING))"
proof (intro conjI impI allI)
  assume "map_of (tasks st) tid = Some t \<and> client_id t \<noteq> Some cid"
  then show "start_processing st tid cid =
        (Inl (HTTPException 403 ''Task does not belong to this client''), st)"
    by (simp add: start_processing_def)
next
  assume "map_of (tasks st) (r_task_id r) = Some t \<and> client_id t \<noteq> Some (r_client_id r)"
  then show "report_result st r now =
        (Inl (HTTPException 403 ''Task does not belong to this client''), st)"
    by (simp add: report_result_def)
next
  assume "map_of (tasks st) tid = None"
  then show "start_processing st tid cid = (Inl (HTTPException 404 ''Task does not exist''), st)"
    by (simp add: start_processing_def)
next
  assume "map_of (tasks st) tid = Some t \<and> client_id t = Some cid \<and> status t \<noteq> READING"
  then show "\<exists>detail. start_processing st tid cid = (Inl (HTTPException 400 detail), st)"
    by (simp add: start_processing_def)
next
  assume a: "map_of (tasks st) tid = Some t \<and> client_id t = Some cid \<and> status t = READING"
  then show "start_processing st tid cid =
        (Inr (OkBody ''Processing started'' tid),
         st\<lparr>tasks := AList.map_entry tid (\<lambda>t. t\<lparr>status := PROCESSING\<rparr>) (tasks st)\<rparr>)"
    by (simp add: start_processing_def)
  from a show "map_of (tasks (snd (start_processing st tid cid))) tid = Some (t\<lparr>status := PROCESSING\<rparr>)"
    by (simp add: start_processing_def map_of_map_entry)
next
  fix body
  assume "fst (start_processing st tid cid) = Inr body"
  then show "\<exists>t'. map_of (tasks st) tid = Some t' \<and> client_id t' = Some cid \<and> status t' = READING"
    by (cases "map_of (tasks st) tid") (auto simp: start_processing_def split: if_splits)
qed

theorem owner_mismatch_forbidden_witness:
  "map_of (tasks held_state) ''j1'' \<noteq> None \<and>
   start_processing held_state ''j1'' ''w2'' =
     (Inl (HTTPException 403 ''Task does not belong to this client''), held_state) \<and>
   report_result held_state (demo_result ''j3'' ''w2'' True) 9 =
     (Inl (HTTPException 403 ''Task does not belong to this client''), held_state) \<and>
   start_processing held_state ''j9'' ''w1'' =
     (Inl (HTTPException 404 ''Task does not exist''), held_state) \<and>
   (\<exists>detail. start_processing held_state ''j2'' ''w1'' = (Inl (HTTPException 400 detail), held_state)) \<and>
   map_of (tasks (snd (start_processing held_state ''j1'' ''w1''))) ''j1'' =
     Some ((new_task ''j1'' ''a.jpg'' ''a.lua'' 1)
             \<lparr>status := PROCESSING, client_id := Some ''w1'', read_at := Some 2\<rparr>)"
proof -
  let ?t1 = "(new_task ''j1'' ''a.jpg'' ''a.lua'' 1)\<lparr>status := READING, client_id := Some ''w1'', read_at := Some 2\<rparr>"
  let ?t2 = "(new_task ''j2'' ''b.jpg'' ''b.lua'' 1)\<lparr>status := PROCESSING, client_id := Some ''w1'', read_at := Some 3\<rparr>"
  let ?t3 = "new_task ''j3'' ''c.jpg'' ''c.lua'' 4"
  have j1: "map_of (tasks held_state) ''j1'' = Some ?t1"
    by (simp add: held_state_def)
  have j2: "map_of (tasks held_state) ''j2'' = Some ?t2"
    by (simp add: held_state_def)
  have j3: "map_of (tasks held_state) (r_task_id (demo_result ''j3'' ''w2'' True)) = Some ?t3"
    by (simp add: held_state_def demo_result_def)
  have j9: "map_of (tasks held_state) ''j9'' = None"
    by (simp add: held_state_def)
  have o1: "client_id ?t1 \<noteq> Some ''w2''" "client_id ?t1 = Some ''w1''" "status ?t1 = READING"
    by (simp_all add: new_task_def)
  have o2: "client_id ?t2 = Some ''w1''" "status ?t2 \<noteq> READING"
    by (simp_all add: new_task_def)
  have o3: "client_id ?t3 \<noteq> Some (r_client_id (demo_result ''j3'' ''w2'' True))"
    by (simp add: new_task_def)
  have a: "start_processing held_state ''j1'' ''w2'' =
     (Inl (HTTPException 403 ''Task does not belong to this client''), held_state)"
    using owner_mismatch_forbidden [of held_state "''j1''" ?t1 "''w2''"] j1 o1 by blast
  have b: "report_result held_state (demo_result ''j3'' ''w2'' True) 9 =
     (Inl (HTTPException 403 ''Task does not belong to this client''), held_state)"
    using owner_mismatch_forbidden [of held_state _ ?t3 _ "demo_result ''j3'' ''w2'' True" 9] j3 o3 by blast
  have c: "start_processing held_state ''j9'' ''w1'' =
     (Inl (HTTPException 404 ''Task does not exist''), held_state)"
    using owner_mismatch_forbidden [of held_state "''j9''" _ "''w1''"] j9 by blast
  have d: "\<exists>detail. start_processing held_state ''j2'' ''w1'' = (Inl (HTTPException 400 detail), held_state)"
    using owner_mismatch_forbidden [of held_state "''j2''" ?t2 "''w1''"] j2 o2 by blast
  have e: "map_of (tasks (snd (start_processing held_state ''j1'' ''w1''))) ''j1'' = Some (?t1\<lparr>status := PROCESSING\<rparr>)"
    using owner_mismatch_forbidden [of held_state "''j1''" ?t1 "''w1''"] j1 o1 by blast
  from j1 a b c d e show ?thesis by simp
qed

section \<open>report\_result: the move to the archive\<close>

lemma report_result_Inr:
  assumes "fst (report_result st r now) = Inr body"
  shows "\<exists>t0. map_of (tasks st) (r_task_id r) = Some t0 \<and> client_id t0 = Some (r_client_id r) \<and>
           report_result st r now =
             (Inr (OkBody ''Result recorded'' (r_task_id r)),
              st\<lparr>completed_tasks := AList.update (r_task_id r) (finish r now t0) (completed_tasks st),
                 tasks := AList.delete (r_task_id r) (tasks st)\<rparr>)"
  using assms
  by (cases "map_of (tasks st) (r_task_id r)")
     (auto simp: report_result_def Let_def split: if_splits)

text \<open>
  Claim C3. After a successful \<open>report_result\<close> for a job id, the id is no longer a key
  of the active store and is a key of the archive; the archived job is the job that was
  active, with status COMPLETED when the report says success and FAILED otherwise, and
  with the result stamped. All other entries of both maps are untouched. The handler is
  one step of the model (its critical section holds the lock and contains no \<open>await\<close>),
  so no state in between, with the job in both maps or in neither, is observable.
\<close>

theorem report_result_archives_job:
  assumes "fst (report_result st r now) = Inr body"
  shows "r_task_id r \<notin> fst ` set (tasks (snd (report_result st r now))) \<and>
         r_task_id r \<in> fst ` set (completed_tasks (snd (report_result st r now))) \<and>
         (\<exists>t0. map_of (tasks st) (r_task_id r) = Some t0 \<and>
               map_of (completed_tasks (snd (report_result st r now))) (r_task_id r) =
                 Some (t0\<lparr>status := (if r_success r then COMPLETED else FAILED),
                          result := Some (result_dict r now)\<rparr>)) \<and>
         (\<forall>k. k \<noteq> r_task_id r \<longrightarrow>
               map_of (tasks (snd (report_result st r now))) k = map_of (tasks st) k \<and>
               map_of (completed_tasks (snd (report_result st r now))) k =
                 map_of (completed_tasks st) k)"
proof -
  from report_result_Inr [OF assms] obtain t0
    where t0: "map_of (tasks st) (r_task_id r) = Some t0"
      and eq: "report_result st r now =
             (Inr (OkBody ''Result recorded'' (r_task_id r)),
              st\<lparr>completed_tasks := AList.update (r_task_id r) (finish r now t0) (completed_tasks st),
                 tasks := AList.delete (r_task_id r) (tasks st)\<rparr>)"
    by blast
  have a: "r_task_id r \<notin> fst ` set (tasks (snd (report_result st r now)))"
    by (simp add: eq delete_notin_dom)
  have b: "r_task_id r \<in> fst ` set (completed_tasks (snd (report_result st r now)))"
    by (simp add: eq dom_update)
  have c: "map_of (completed_tasks (snd (report_result st r now))) (r_task_id r) =
                 Some (t0\<lparr>status := (if r_success r then COMPLETED else FAILED),
                          result := Some (result_dict r now)\<rparr>)"
    by (simp add: eq update_conv' finish_def)
  have d: "\<forall>k. k \<noteq> r_task_id r \<longrightarrow>
               map_of (tasks (snd (report_result st r now))) k = map_of (tasks st) k \<and>
               map_of (completed_tasks (snd (report_result st r now))) k =
                 map_of (completed_tasks st) k"
    by (simp add: eq update_conv' delete_conv')
  from a b c d t0 show ?thesis by blast
qed

theorem report_result_archives_job_witness:
  "fst (report_result held_state (demo_result ''j2'' ''w1'' True) 9) = Inr (OkBody ''Result recorded'' ''j2'') \<and>
   ''j2'' \<notin> fst ` set (tasks (snd (report_result held_state (demo_result ''j2'' ''w1'' True) 9))) \<and>
   ''j2'' \<in> fst ` set (completed_tasks (snd (report_result held_state (demo_result ''j2'' ''w1'' True) 9))) \<and>
   fst (report_result held_state (demo_result ''j1'' ''w1'' False) 9) = Inr (OkBody ''Result recorded'' ''j1'') \<and>
   ''j1'' \<notin> fst ` set (tasks (snd (report_result held_state (demo_result ''j1'' ''w1'' False) 9))) \<and>
   ''j1'' \<in> fst ` set (completed_tasks (snd (report_result held_state (demo_result ''j1'' ''w1'' False) 9)))"
proof -
  have a: "fst (report_result held_state (demo_result ''j2'' ''w1'' True) 9) = Inr (OkBody ''Result recorded'' ''j2'')"
    by (simp add: report_result_def Let_def held_state_def demo_result_def new_task_def)
  have b: "fst (report_result held_state (demo_result ''j1'' ''w1'' False) 9) = Inr (OkBody ''Result recorded'' ''j1'')"
    by (simp add: report_result_def Let_def held_state_def demo_result_def new_task_def)
  have n: "r_task_id (demo_result ''j2'' ''w1'' True) = ''j2''" "r_task_id (demo_result ''j1'' ''w1'' False) = ''j1''"
    by (simp_all add: demo_result_def)
  from report_result_archives_job [OF a] report_result_archives_job [OF b] a b
  show ?thesis unfolding n by blast
qed

section \<open>upload\_result: what is checked before an upload is accepted\<close>

lemma wait_loop_ready:
  "map_of fs p = Some content \<Longrightarrow> content \<noteq> [] \<Longrightarrow> 0 < timeout \<Longrightarrow>
     wait_loop fs p timeout now now 0 d = (True, now + 1 / 2)"
  by (subst wait_loop.simps) (simp add: MAX_FILE_WAIT_RETRIES_def)

lemma wait_loop_empty:
  "map_of fs p = Some [] \<Longrightarrow> fst (wait_loop fs p timeout start now rc d) = False"
proof (induction fs p timeout start now rc d rule: wait_loop.induct)
  case (1 fs file_path timeout start_time now retry_count current_delay)
  show ?case
  proof (cases "now - start_time < timeout \<and> retry_count < MAX_FILE_WAIT_RETRIES")
    case True
    with 1 show ?thesis by (subst wait_loop.simps) simp
  next
    case False
    then show ?thesis by (subst wait_loop.simps) auto
  qed
qed

lemma upload_paths:
  "map_of (AList.update (d @ ''/processed.jpg'') content (AList.delete (d @ ''/processed.tmp'') fs))
     (d @ ''/processed.jpg'') = Some content"
  by (simp add: update_conv')

lemma upload_result_archived:
  assumes "map_of (completed_tasks st) tid = Some t"
  shows "(content \<noteq> [] \<longrightarrow> (\<exists>body st'. upload_result st tid content now = (Inr body, st'))) \<and>
         (content = [] \<longrightarrow> (\<exists>st'. upload_result st tid content now = (Inl (HTTPException 500 ''Save failed''), st')))"
proof (intro conjI impI)
  assume ne: "content \<noteq> []"
  let ?d = "results_dir @ ''/'' @ tid"
  let ?fs = "AList.update (?d @ ''/processed.jpg'') content
               (AList.delete (?d @ ''/processed.tmp'') (AList.update (?d @ ''/processed.tmp'') content (files st)))"
  have "wait_loop ?fs (?d @ ''/processed.jpg'') 30 now now 0 RETRY_DELAY = (True, now + 1 / 2)"
    by (rule wait_loop_ready [OF upload_paths ne]) simp
  then have "wait_for_file_with_retries ?fs (?d @ ''/processed.jpg'') (Some 30) now = (True, now + 1 / 2)"
    by (simp add: wait_for_file_with_retries_def)
  then show "\<exists>body st'. upload_result st tid content now = (Inr body, st')"
    using assms by (simp add: upload_result_def Let_def)
next
  assume e: "content = []"
  let ?d = "results_dir @ ''/'' @ tid"
  let ?fs = "AList.update (?d @ ''/processed.jpg'') content
               (AList.delete (?d @ ''/processed.tmp'') (AList.update (?d @ ''/processed.tmp'') content (files st)))"
  have "map_of ?fs (?d @ ''/processed.jpg'') = Some content"
    by (rule upload_paths)
  then have "map_of ?fs (?d @ ''/processed.jpg'') = Some []"
    using e by (simp only:)
  then have "fst (wait_for_file_with_retries ?fs (?d @ ''/processed.jpg'') (Some 30) now) = False"
    unfolding wait_for_file_with_retries_def by (rule wait_loop_empty)
  then obtain now' where
    "wait_for_file_with_retries ?fs (?d @ ''/processed.jpg'') (Some 30) now = (False, now')"
    by (cases "wait_for_file_with_retries ?fs (?d @ ''/processed.jpg'') (Some 30) now") simp
  then show "\<exists>st'. upload_result st tid content now = (Inl (HTTPException 500 ''Save failed''), st')"
    using assms by (simp add: upload_result_def Let_def)
qed

lemma failed_archive_j1:
  "map_of (completed_tasks failed_archive_state) ''j1'' =
     Some ((new_task ''j1'' ''a.jpg'' ''a.lua'' 1)
             \<lparr>status := FAILED, client_id := Some ''w1'', read_at := Some 2,
              result := Some (result_dict (demo_result ''j1'' ''w1'' False) 9)\<rparr>)"
  by (simp add: failed_archive_state_def report_result_def Let_def held_state_def
        demo_result_def new_task_def finish_def)

text \<open>
  Claim C7 says that an upload is accepted only for an archived job with status COMPLETED
  and that an upload for an archived FAILED job is rejected. The handler tests only
  whether the id is a key of \<open>completed_tasks\<close>; the status of the archived job is never
  read. In the store below job \<open>j1\<close> is archived with status FAILED, and its upload is
  accepted.
\<close>

theorem upload_result_failed_job_counterexample:
  "map_option status (map_of (completed_tasks failed_archive_state) ''j1'') = Some FAILED \<and>
   fst (upload_result failed_archive_state ''j1'' ''JPEG'' 20) =
     Inr (UploadBody ''Processing result uploaded successfully'' ''j1''
            ''lr_caches/lightroom_results/j1/processed.jpg'' ''lr_caches/lightroom_results/j1'' 4)"
proof -
  have w: "wait_loop fs ''lr_caches/lightroom_results/j1/processed.jpg'' 30 20 20 0 d = (True, 20 + 1 / 2)"
    if "map_of fs ''lr_caches/lightroom_results/j1/processed.jpg'' = Some ''JPEG''" for fs d
    using wait_loop_ready [OF that, of 30 20 d] by simp
  show ?thesis
    by (simp add: failed_archive_j1 upload_result_def Let_def results_dir_def
          wait_for_file_with_retries_def w update_conv')
qed

text \<open>
  Claim C7, amended. An upload is rejected with status 404, the state unchanged, when the
  job id is not a key of the archive. For a job id in the archive the upload of a
  non-empty file is accepted whatever the status of the job, COMPLETED or FAILED. The
  only errors of the handler are 404 (id not archived) and 500 (the written file fails
  the verification, which here is the case of an empty file); status 400 never occurs.
\<close>

theorem upload_result_checks_archive_only:
  "(map_of (completed_tasks st) tid = None \<longrightarrow>
      upload_result st tid content now =
        (Inl (HTTPException 404 ''Task does not exist or not completed''), st)) \<and>
   (map_of (completed_tasks st) tid \<noteq> None \<and> content \<noteq> [] \<longrightarrow>
      (\<exists>body. fst (upload_result st tid content now) = Inr body)) \<and>
   (\<forall>code detail. fst (upload_result st tid content now) = Inl (HTTPException code detail) \<longrightarrow>
      (code = 404 \<and> map_of (completed_tasks st) tid = None) \<or>
      (code = 500 \<and> map_of (completed_tasks st) tid \<noteq> None \<and> content = []))"
proof (intro conjI impI allI)
  assume "map_of (completed_tasks st) tid = None"
  then show "upload_result st tid content now =
        (Inl (HTTPException 404 ''Task does not exist or not completed''), st)"
    by (simp add: upload_result_def)
next
  assume "map_of (completed_tasks st) tid \<noteq> None \<and> content \<noteq> []"
  then obtain t where "map_of (completed_tasks st) tid = Some t" and "content \<noteq> []" by auto
  with upload_result_archived [of st tid t content now]
  show "\<exists>body. fst (upload_result st tid content now) = Inr body" by auto
next
  fix code detail
  assume a: "fst (upload_result st tid content now) = Inl (HTTPException code detail)"
  show "(code = 404 \<and> map_of (completed_tasks st) tid = None) \<or>
      (code = 500 \<and> map_of (completed_tasks st) tid \<noteq> None \<and> content = [])"
  proof (cases "map_of (completed_tasks st) tid")
    case None
    with a show ?thesis by (simp add: upload_result_def)
  next
    case (Some t)
    with a upload_result_archived [of st tid t content now] show ?thesis
      by (cases "content = []") auto
  qed
qed

theorem upload_result_checks_archive_only_witness:
  "map_of (completed_tasks failed_archive_state) ''j2'' = None \<and>
   upload_result failed_archive_state ''j2'' ''JPEG'' 20 =
     (Inl (HTTPException 404 ''Task does not exist or not completed''), failed_archive_state) \<and>
   map_of (completed_tasks failed_archive_state) ''j1'' \<noteq> None \<and>
   (\<exists>body. fst (upload_result failed_archive_state ''j1'' ''JPEG'' 20) = Inr body)"
proof -
  have a: "map_of (completed_tasks failed_archive_state) ''j2'' = None"
    by (simp add: failed_archive_state_def report_result_def Let_def held_state_def
        demo_result_def new_task_def)
  have b: "map_of (completed_tasks failed_archive_state) ''j1'' \<noteq> None \<and> ''JPEG'' \<noteq> []"
    by (simp add: failed_archive_j1)
  from a upload_result_checks_archive_only [of failed_archive_state "''j2''" "''JPEG''" 20]
  have c: "upload_result failed_archive_state ''j2'' ''JPEG'' 20 =
     (Inl (HTTPException 404 ''Task does not exist or not completed''), failed_archive_state)"
    by blast
  from b upload_result_checks_archive_only [of failed_archive_state "''j1''" "''JPEG''" 20]
  have d: "\<exists>body. fst (upload_result failed_archive_state ''j1'' ''JPEG'' 20) = Inr body"
    by blast
  from a b c d show ?thesis by blast
qed

section \<open>The worker's timeout estimate\<close>

text \<open>
  Claim C8. With base timeout 5, increment 5 per mask and mask ceiling 120, a config that
  has the mask section (\<open>MaskGroupBasedCorrections\<close>) with three mask entries
  (\<open>What = "Mask/Image"\<close>) gets the estimate 20, which is 5 + 3 * 5 and below the ceiling.
  A config that contains neither the mask section nor any of the four complex-operation
  keywords gets exactly the base timeout, whatever the increments and ceilings are.
\<close>

theorem calculate_processing_timeout_estimate:
  "(base_processing_timeout self = 5 \<and> mask_increment_seconds self = 5 \<and>
    max_timeout_mask self = 120 \<and>
    str_contains ''MaskGroupBasedCorrections'' lua_content \<and>
    str_count lua_content mask_marker = 3 \<longrightarrow>
      calculate_processing_timeout self (Some lua_content) = 20) \<and>
   (\<not> str_contains ''MaskGroupBasedCorrections'' lua_content \<and>
    (\<forall>op \<in> set complex_operations. \<not> str_contains op lua_content) \<longrightarrow>
      calculate_processing_timeout self (Some lua_content) = base_processing_timeout self)"
proof (intro conjI impI)
  assume "base_processing_timeout self = 5 \<and> mask_increment_seconds self = 5 \<and>
    max_timeout_mask self = 120 \<and>
    str_contains ''MaskGroupBasedCorrections'' lua_content \<and>
    str_count lua_content mask_marker = 3"
  then show "calculate_processing_timeout self (Some lua_content) = 20"
    by (simp add: calculate_processing_timeout_def Let_def)
next
  assume a: "\<not> str_contains ''MaskGroupBasedCorrections'' lua_content \<and>
    (\<forall>op \<in> set complex_operations. \<not> str_contains op lua_content)"
  then have "filter (\<lambda>op. str_contains op lua_content) complex_operations = []"
    by (simp add: filter_empty_conv)
  with a show "calculate_processing_timeout self (Some lua_content) = base_processing_timeout self"
    by (simp add: calculate_processing_timeout_def Let_def)
qed

theorem calculate_processing_timeout_estimate_witness:
  "str_contains ''MaskGroupBasedCorrections'' three_masks_lua \<and>
   str_count three_masks_lua mask_marker = 3 \<and>
   calculate_processing_timeout demo_config (Some three_masks_lua) = 20 \<and>
   \<not> str_contains ''MaskGroupBasedCorrections'' plain_lua \<and>
   filter (\<lambda>op. str_contains op plain_lua) complex_operations = [] \<and>
   calculate_processing_timeout demo_config (Some plain_lua) = 5"
proof -
  have a: "str_contains ''MaskGroupBasedCorrections'' three_masks_lua"
    by (simp add: three_masks_lua_def)
  have b: "str_count three_masks_lua mask_marker = 3"
    by (simp add: three_masks_lua_def mask_marker_def str_count_def)
  have c: "\<not> str_contains ''MaskGroupBasedCorrections'' plain_lua"
    by (simp add: plain_lua_def)
  have d: "\<forall>op \<in> set complex_operations. \<not> str_contains op plain_lua"
    by (simp add: plain_lua_def complex_operations_def)
  have e: "base_processing_timeout demo_config = 5 \<and> mask_increment_seconds demo_config = 5 \<and>
    max_timeout_mask demo_config = 120"
    by (simp add: demo_config_def)
  from calculate_processing_timeout_estimate [of demo_config three_masks_lua] a b e
  have f: "calculate_processing_timeout demo_config (Some three_masks_lua) = 20" by blast
  from calculate_processing_timeout_estimate [of demo_config plain_lua] c d e
  have g: "calculate_processing_timeout demo_config (Some plain_lua) = 5" by simp
  from d have h: "filter (\<lambda>op. str_contains op plain_lua) complex_operations = []"
    by (simp add: filter_empty_conv)
  from a b c h f g show ?thesis by blast
qed

section \<open>The sweep of the reaper, entry by entry\<close>

lemma map_fst_map_entry: "map fst (AList.map_entry k f xs) = map fst xs"
  by (induction xs) auto

lemma reset_to_pending_idem: "reset_to_pending (reset_to_pending t) = reset_to_pending t"
  by (simp add: reset_to_pending_def)

lemma map_of_reset_all:
  "map_of (reset_all ids ts) k =
     (if k \<in> set ids then map_option reset_to_pending (map_of ts k) else map_of ts k)"
  unfolding reset_all_def
proof (induction ids arbitrary: ts)
  case Nil
  then show ?case by simp
next
  case (Cons a ids)
  show ?case
    by (cases "map_of ts a")
       (auto simp: Cons.IH map_of_map_entry reset_to_pending_idem)
qed

lemma map_fst_reset_all: "map fst (reset_all ids ts) = map fst ts"
  unfolding reset_all_def
  by (induction ids arbitrary: ts) (simp_all add: map_fst_map_entry)

lemma collect_ids_iff:
  "distinct (map fst xs) \<Longrightarrow> k \<in> set (collect_ids P xs) \<longleftrightarrow> (\<exists>v. map_of xs k = Some v \<and> P v)"
  unfolding collect_ids_def
  by (induction xs) (auto simp: rev_image_eqI)

lemma map_of_fold_delete:
  "map_of (fold AList.delete ks cs) k = (if k \<in> set ks then None else map_of cs k)"
  by (induction ks arbitrary: cs) (auto simp: delete_conv')

lemma reset_not_processing: "\<not> processing_timed_out now (reset_to_pending t)"
  by (simp add: processing_timed_out_def reset_to_pending_def)

lemma cleanup_tasks_lookup:
  assumes "distinct (map fst (tasks st))"
  shows "map_of (tasks (cleanup_old_tasks st now)) k =
           map_option (\<lambda>t. if reading_timed_out now t \<or> processing_timed_out now t
                            then reset_to_pending t else t)
             (map_of (tasks st) k)"
proof -
  let ?ts1 = "reset_all (collect_ids (reading_timed_out now) (tasks st)) (tasks st)"
  have d1: "distinct (map fst ?ts1)" using assms by (simp add: map_fst_reset_all)
  have t: "tasks (cleanup_old_tasks st now) =
             reset_all (collect_ids (processing_timed_out now) ?ts1) ?ts1"
    by (simp add: cleanup_old_tasks_def Let_def)
  show ?thesis
  proof (cases "map_of (tasks st) k")
    case None
    then show ?thesis by (simp add: t map_of_reset_all)
  next
    case (Some v)
    show ?thesis
    proof (cases "reading_timed_out now v")
      case True
      then have "map_of ?ts1 k = Some (reset_to_pending v)"
        using Some assms by (simp add: map_of_reset_all collect_ids_iff)
      then show ?thesis using Some True
        by (simp add: t map_of_reset_all [of _ ?ts1] collect_ids_iff [OF d1] reset_not_processing
              reset_to_pending_idem)
    next
      case False
      then have "map_of ?ts1 k = Some v"
        using Some assms by (simp add: map_of_reset_all collect_ids_iff)
      then show ?thesis using Some False
        by (simp add: t map_of_reset_all [of _ ?ts1] collect_ids_iff [OF d1])
    qed
  qed
qed

lemma cleanup_tasks_keys: "map fst (tasks (cleanup_old_tasks st now)) = map fst (tasks st)"
  by (simp add: cleanup_old_tasks_def Let_def map_fst_reset_all)

lemma cleanup_clients_lookup:
  assumes "distinct (map fst (clients st))"
  shows "map_of (clients (cleanup_old_tasks st now)) k =
           (case map_of (clients st) k of
              None \<Rightarrow> None
            | Some info \<Rightarrow> if client_offline now info then None else Some info)"
  using assms
  by (cases "map_of (clients st) k")
     (auto simp: cleanup_old_tasks_def Let_def map_of_fold_delete collect_ids_iff)

lemma cleanup_other_fields:
  "completed_tasks (cleanup_old_tasks st now) = completed_tasks st \<and>
   files (cleanup_old_tasks st now) = files st"
  by (simp add: cleanup_old_tasks_def Let_def)

section \<open>Reclaiming stale PROCESSING jobs\<close>

lemma crash_state_eq:
  "crash_state =
     \<lparr>tasks = [(''j1'', (new_task ''j1'' ''a.jpg'' ''a.lua'' 0)
                           \<lparr>status := READING, client_id := Some ''w1'', read_at := Some 1\<rparr>)],
      clients = [(''w1'', demo_client ''w1'' 1), (''w2'', demo_client ''w2'' 0)],
      completed_tasks = [], files = []\<rparr>"
  by (simp add: crash_state_def empty_state_def register_client_def submit_task_def get_task_def
        Let_def demo_client_def new_task_def lt_earliest_def mark_reading_def)

lemma late_start_state_eq:
  "late_start_state =
     \<lparr>tasks = [(''j1'', (new_task ''j1'' ''a.jpg'' ''a.lua'' 0)
                           \<lparr>status := PROCESSING, client_id := Some ''w1'', read_at := Some 1795\<rparr>)],
      clients = [(''w1'', demo_client ''w1'' 1795)],
      completed_tasks = [], files = []\<rparr>"
  by (simp add: late_start_state_def empty_state_def register_client_def submit_task_def get_task_def
        start_processing_def Let_def demo_client_def new_task_def lt_earliest_def mark_reading_def)

text \<open>
  Claim C6. A sweep of the reaper at time \<open>now\<close> resets a PROCESSING job to PENDING,
  clearing its owner and \<open>read_at\<close>, exactly when \<open>now - created_at\<close> exceeds 1800; otherwise
  the job is left as it is. Only \<open>created_at\<close> enters the test: the job record has no
  field for the time at which processing started. In the store of the witness the job
  waited 1795 seconds before it was claimed and confirmed, and is reclaimed by the sweep
  at time 1801, six seconds later.
\<close>

theorem cleanup_processing_by_creation_time:
  assumes "distinct (map fst (tasks st))"
    and "map_of (tasks st) tid = Some t"
    and "status t = PROCESSING"
  shows "map_of (tasks (cleanup_old_tasks st now)) tid =
           Some (if now - created_at t > 1800
                 then t\<lparr>status := PENDING, client_id := None, read_at := None\<rparr>
                 else t)"
  using assms(2,3)
  by (simp add: cleanup_tasks_lookup [OF assms(1)] reading_timed_out_def processing_timed_out_def
        reset_to_pending_def)

theorem cleanup_processing_by_creation_time_witness:
  "distinct (map fst (tasks late_start_state)) \<and>
   map_of (tasks late_start_state) ''j1'' =
     Some ((new_task ''j1'' ''a.jpg'' ''a.lua'' 0)
             \<lparr>status := PROCESSING, client_id := Some ''w1'', read_at := Some 1795\<rparr>) \<and>
   map_of (tasks (cleanup_old_tasks late_start_state 1801)) ''j1'' =
     Some (new_task ''j1'' ''a.jpg'' ''a.lua'' 0) \<and>
   map_of (tasks (cleanup_old_tasks late_start_state 1800)) ''j1'' =
     Some ((new_task ''j1'' ''a.jpg'' ''a.lua'' 0)
             \<lparr>status := PROCESSING, client_id := Some ''w1'', read_at := Some 1795\<rparr>)"
proof -
  let ?t = "(new_task ''j1'' ''a.jpg'' ''a.lua'' 0)
             \<lparr>status := PROCESSING, client_id := Some ''w1'', read_at := Some 1795\<rparr>"
  have a: "distinct (map fst (tasks late_start_state))"
    by (simp add: late_start_state_eq)
  have b: "map_of (tasks late_start_state) ''j1'' = Some ?t"
    by (simp add: late_start_state_eq)
  have c: "status ?t = PROCESSING" by simp
  have d: "created_at ?t = 0" by (simp add: new_task_def)
  from cleanup_processing_by_creation_time [OF a b c, of 1801] d
  have e: "map_of (tasks (cleanup_old_tasks late_start_state 1801)) ''j1'' =
     Some (new_task ''j1'' ''a.jpg'' ''a.lua'' 0)"
    by (simp add: new_task_def)
  from cleanup_processing_by_creation_time [OF a b c, of 1800] d
  have f: "map_of (tasks (cleanup_old_tasks late_start_state 1800)) ''j1'' = Some ?t"
    by simp
  from a b e f show ?thesis by blast
qed

section \<open>Reclaiming READING jobs whose lease has expired\<close>

lemma scan_tasks_selects:
  assumes d: "distinct (map fst xs)"
    and l: "map_of xs tid = Some t"
    and p: "status t = PENDING"
    and e: "\<forall>k' t'. k' \<noteq> tid \<and> map_of xs k' = Some t' \<and> status t' = PENDING
              \<longrightarrow> created_at t < created_at t'"
  shows "scan_tasks xs None None = Some (tid, t)"
proof -
  from l have m: "(tid, t) \<in> set xs" by (rule map_of_SomeD)
  with p have "scan_tasks xs None None \<noteq> None"
    by (auto simp: scan_tasks_None_iff)
  then obtain k t' where r: "scan_tasks xs None None = Some (k, t')"
    by (cases "scan_tasks xs None None") auto
  from scan_tasks_Some [OF r] obtain pre post
    where pp: "xs = pre @ (k, t') # post" "first_earliest pre post (k, t')" by blast
  from pp(1) d have lk: "map_of xs k = Some t'"
    by (intro map_of_is_SomeI) auto
  have "k = tid"
  proof (rule ccontr)
    assume ne: "k \<noteq> tid"
    with lk pp(2) e have lt: "created_at t < created_at t'"
      by (auto simp: first_earliest_def)
    from m pp(1) ne have "(tid, t) \<in> set pre \<or> (tid, t) \<in> set post" by auto
    with pp(2) p have "created_at t' \<le> created_at t"
      by (auto simp: first_earliest_def)
    with lt show False by simp
  qed
  with lk l r show ?thesis by simp
qed

lemma get_task_selects:
  assumes "distinct (map fst (tasks st))"
    and "map_of (clients st) cid \<noteq> None"
    and "map_of (tasks st) tid = Some t"
    and "status t = PENDING"
    and "\<forall>k' t'. k' \<noteq> tid \<and> map_of (tasks st) k' = Some t' \<and> status t' = PENDING
              \<longrightarrow> created_at t < created_at t'"
  shows "get_task st cid t_seen t_read =
           (Inr (Some (view_of (mark_reading cid t_read t))),
            st\<lparr>clients := AList.map_entry cid (\<lambda>c. c\<lparr>last_seen := t_seen\<rparr>) (clients st),
               tasks := AList.map_entry tid (mark_reading cid t_read) (tasks st)\<rparr>)"
proof -
  from scan_tasks_selects [OF assms(1,3,4,5)]
  have "scan_tasks (tasks st) None None = Some (tid, t)" .
  with assms(2) show ?thesis
    by (auto simp: get_task_def)
qed

text \<open>
  Claim C5. A READING job whose \<open>read_at\<close> lies more than its \<open>read_timeout\<close> before the
  time of a sweep is reset by the sweep: status PENDING, no owner, no \<open>read_at\<close>. After
  the sweep any registered worker, also one different from the former owner, that asks
  for a job while this job is the earliest PENDING one receives it, and the job is
  READING again, owned by the new worker, with \<open>read_at\<close> the time of the new claim.
  The source tests \<open>task.read_at\<close> for truthiness, so \<open>read_at\<close> is required to be a
  clock reading other than \<open>0.0\<close>.
\<close>

theorem cleanup_reading_lease_expired:
  assumes "distinct (map fst (tasks st))"
    and "map_of (tasks st) tid = Some t"
    and "status t = READING"
    and "read_at t = Some r"
    and "r \<noteq> 0"
    and "now - r > read_timeout t"
  shows "map_of (tasks (cleanup_old_tasks st now)) tid =
           Some (t\<lparr>status := PENDING, client_id := None, read_at := None\<rparr>) \<and>
         (\<forall>cid2 t_seen t_read.
            map_of (clients (cleanup_old_tasks st now)) cid2 \<noteq> None \<and>
            (\<forall>k' t'. k' \<noteq> tid \<and> map_of (tasks (cleanup_old_tasks st now)) k' = Some t' \<and>
                      status t' = PENDING \<longrightarrow> created_at t < created_at t') \<longrightarrow>
            (\<exists>v. fst (get_task (cleanup_old_tasks st now) cid2 t_seen t_read) = Inr (Some v) \<and>
                  v_task_id v = task_id t) \<and>
            map_of (tasks (snd (get_task (cleanup_old_tasks st now) cid2 t_seen t_read))) tid =
              Some (t\<lparr>status := READING, client_id := Some cid2, read_at := Some t_read\<rparr>))"
proof -
  let ?st = "cleanup_old_tasks st now"
  let ?t = "t\<lparr>status := PENDING, client_id := None, read_at := None\<rparr>"
  have a: "map_of (tasks ?st) tid = Some ?t"
    using assms(2-6)
    by (simp add: cleanup_tasks_lookup [OF assms(1)] reading_timed_out_def reset_to_pending_def)
  have d: "distinct (map fst (tasks ?st))"
    using assms(1) by (simp add: cleanup_tasks_keys)
  have b: "(\<exists>v. fst (get_task ?st cid2 t_seen t_read) = Inr (Some v) \<and> v_task_id v = task_id t) \<and>
            map_of (tasks (snd (get_task ?st cid2 t_seen t_read))) tid =
              Some (t\<lparr>status := READING, client_id := Some cid2, read_at := Some t_read\<rparr>)"
    if c: "map_of (clients ?st) cid2 \<noteq> None"
      and e: "\<forall>k' t'. k' \<noteq> tid \<and> map_of (tasks ?st) k' = Some t' \<and>
                      status t' = PENDING \<longrightarrow> created_at t < created_at t'"
    for cid2 t_seen t_read
  proof -
    have e': "\<forall>k' t'. k' \<noteq> tid \<and> map_of (tasks ?st) k' = Some t' \<and>
                      status t' = PENDING \<longrightarrow> created_at ?t < created_at t'"
      using e by simp
    have g: "get_task ?st cid2 t_seen t_read =
           (Inr (Some (view_of (mark_reading cid2 t_read ?t))),
            ?st\<lparr>clients := AList.map_entry cid2 (\<lambda>c. c\<lparr>last_seen := t_seen\<rparr>) (clients ?st),
               tasks := AList.map_entry tid (mark_reading cid2 t_read) (tasks ?st)\<rparr>)"
      by (rule get_task_selects [OF d c a _ e']) simp
    show ?thesis
      using a by (simp add: g view_of_def mark_reading_def map_of_map_entry)
  qed
  from a b show ?thesis by blast
qed

theorem cleanup_reading_lease_expired_witness:
  "distinct (map fst (tasks crash_state)) \<and>
   map_of (tasks crash_state) ''j1'' =
     Some ((new_task ''j1'' ''a.jpg'' ''a.lua'' 0)
             \<lparr>status := READING, client_id := Some ''w1'', read_at := Some 1\<rparr>) \<and>
   map_of (tasks (cleanup_old_tasks crash_state 12)) ''j1'' =
     Some (new_task ''j1'' ''a.jpg'' ''a.lua'' 0) \<and>
   map_of (clients (cleanup_old_tasks crash_state 12)) ''w2'' \<noteq> None \<and>
   (\<exists>v. fst (get_task (cleanup_old_tasks crash_state 12) ''w2'' 13 13) = Inr (Some v) \<and>
         v_task_id v = ''j1'') \<and>
   map_of (tasks (snd (get_task (cleanup_old_tasks crash_state 12) ''w2'' 13 13))) ''j1'' =
     Some ((new_task ''j1'' ''a.jpg'' ''a.lua'' 0)
             \<lparr>status := READING, client_id := Some ''w2'', read_at := Some 13\<rparr>)"
proof -
  let ?t = "(new_task ''j1'' ''a.jpg'' ''a.lua'' 0)
             \<lparr>status := READING, client_id := Some ''w1'', read_at := Some 1\<rparr>"
  let ?st = "cleanup_old_tasks crash_state 12"
  have a: "distinct (map fst (tasks crash_state))"
    by (simp add: crash_state_eq)
  have b: "map_of (tasks crash_state) ''j1'' = Some ?t"
    by (simp add: crash_state_eq)
  have c: "status ?t = READING" "read_at ?t = Some 1" "(1::real) \<noteq> 0" "12 - 1 > read_timeout ?t"
    by (simp_all add: new_task_def)
  note main = cleanup_reading_lease_expired [OF a b c]
  have k: "map fst (tasks ?st) = [''j1'']"
    by (simp add: cleanup_tasks_keys crash_state_eq)
  have o: "\<forall>k' t'. k' \<noteq> ''j1'' \<and> map_of (tasks ?st) k' = Some t' \<and> status t' = PENDING
             \<longrightarrow> created_at ?t < created_at t'"
  proof (intro allI impI)
    fix k' t'
    assume h: "k' \<noteq> ''j1'' \<and> map_of (tasks ?st) k' = Some t' \<and> status t' = PENDING"
    then have "k' \<in> fst ` set (tasks ?st)"
      by (metis domI dom_map_of_conv_image_fst)
    then have "k' \<in> set (map fst (tasks ?st))" by simp
    with k h show "created_at ?t < created_at t'" by simp
  qed
  have w: "map_of (clients ?st) ''w2'' \<noteq> None"
    by (simp add: cleanup_clients_lookup crash_state_eq client_offline_def demo_client_def)
  have e: "map_of (tasks ?st) ''j1'' = Some (new_task ''j1'' ''a.jpg'' ''a.lua'' 0)"
    using main by (simp add: new_task_def)
  from main w o
  have f: "(\<exists>v. fst (get_task ?st ''w2'' 13 13) = Inr (Some v) \<and> v_task_id v = task_id ?t) \<and>
            map_of (tasks (snd (get_task ?st ''w2'' 13 13))) ''j1'' =
              Some (?t\<lparr>status := READING, client_id := Some ''w2'', read_at := Some 13\<rparr>)"
    by blast
  have n: "task_id ?t = ''j1''" by (simp add: new_task_def)
  from a b e w f show ?thesis unfolding n by simp
qed

section \<open>Which handlers look at the client registry\<close>

lemma busy_state_eq:
  "busy_state =
     \<lparr>tasks = [(''j1'', (new_task ''j1'' ''a.jpg'' ''a.lua'' 0)
                           \<lparr>status := PROCESSING, client_id := Some ''w1'', read_at := Some 1\<rparr>)],
      clients = [(''w1'', demo_client ''w1'' 1)],
      completed_tasks = [], files = []\<rparr>"
  by (simp add: busy_state_def empty_state_def register_client_def submit_task_def get_task_def
        start_processing_def Let_def demo_client_def new_task_def lt_earliest_def mark_reading_def)

lemma purged_state_eq:
  "purged_state =
     \<lparr>tasks = [(''j1'', (new_task ''j1'' ''a.jpg'' ''a.lua'' 0)
                           \<lparr>status := PROCESSING, client_id := Some ''w1'', read_at := Some 1\<rparr>)],
      clients = [], completed_tasks = [], files = []\<rparr>"
  by (simp add: purged_state_def busy_state_eq cleanup_old_tasks_def Let_def collect_ids_def
        reset_all_def reading_timed_out_def processing_timed_out_def client_offline_def
        demo_client_def new_task_def)

lemma start_processing_clients:
  "start_processing (st\<lparr>clients := cs\<rparr>) tid cid =
     (fst (start_processing st tid cid), (snd (start_processing st tid cid))\<lparr>clients := cs\<rparr>)"
  by (cases "map_of (tasks st) tid") (simp_all add: start_processing_def)

lemma report_result_clients:
  "report_result (st\<lparr>clients := cs\<rparr>) r now =
     (fst (report_result st r now), (snd (report_result st r now))\<lparr>clients := cs\<rparr>)"
  by (cases "map_of (tasks st) (r_task_id r)") (simp_all add: report_result_def Let_def)

lemma upload_result_clients:
  "upload_result (st\<lparr>clients := cs\<rparr>) tid content now =
     (fst (upload_result st tid content now), (snd (upload_result st tid content now))\<lparr>clients := cs\<rparr>)"
  by (cases "map_of (completed_tasks st) tid")
     (simp_all add: upload_result_def Let_def split: prod.splits)

text \<open>
  Claim C10. \<open>start_processing\<close>, \<open>report_result\<close> and \<open>upload_result\<close> give the same
  answer and make the same changes whatever the client registry holds: replacing the
  registry by any other one changes neither the response nor the rest of the resulting
  state. A sweep of the reaper removes the record of a client last seen more than 600
  seconds before. For a worker id without a record, \<open>get_task\<close> answers 403, while the
  worker can still confirm a READING job it owns, report a result for a job it owns,
  and upload a non-empty artifact for an archived job.
\<close>

theorem registration_checked_only_by_get_task:
  "start_processing (st\<lparr>clients := cs\<rparr>) tid cid =
     (fst (start_processing st tid cid), (snd (start_processing st tid cid))\<lparr>clients := cs\<rparr>) \<and>
   report_result (st\<lparr>clients := cs\<rparr>) r now =
     (fst (report_result st r now), (snd (report_result st r now))\<lparr>clients := cs\<rparr>) \<and>
   upload_result (st\<lparr>clients := cs\<rparr>) tid content now =
     (fst (upload_result st tid content now), (snd (upload_result st tid content now))\<lparr>clients := cs\<rparr>) \<and>
   (distinct (map fst (clients st)) \<and>
    (\<exists>info. map_of (clients st) cid = Some info \<and> sweep - last_seen info > 600) \<longrightarrow>
      map_of (clients (cleanup_old_tasks st sweep)) cid = None) \<and>
   (map_of (clients st) cid = None \<longrightarrow>
      (\<exists>detail. fst (get_task st cid t_seen t_read) = Inl (HTTPException 403 detail)) \<and>
      (\<forall>t. map_of (tasks st) tid = Some t \<and> client_id t = Some cid \<and> status t = READING \<longrightarrow>
           fst (start_processing st tid cid) = Inr (OkBody ''Processing started'' tid)) \<and>
      (\<forall>t. map_of (tasks st) (r_task_id r) = Some t \<and> client_id t = Some cid \<and> r_client_id r = cid \<longrightarrow>
           fst (report_result st r now) = Inr (OkBody ''Result recorded'' (r_task_id r))) \<and>
      (map_of (completed_tasks st) tid \<noteq> None \<and> content \<noteq> [] \<longrightarrow>
           (\<exists>body. fst (upload_result st tid content now) = Inr body)))"
proof (intro conjI impI allI)
  show "start_processing (st\<lparr>clients := cs\<rparr>) tid cid =
     (fst (start_processing st tid cid), (snd (start_processing st tid cid))\<lparr>clients := cs\<rparr>)"
    by (rule start_processing_clients)
  show "report_result (st\<lparr>clients := cs\<rparr>) r now =
     (fst (report_result st r now), (snd (report_result st r now))\<lparr>clients := cs\<rparr>)"
    by (rule report_result_clients)
  show "upload_result (st\<lparr>clients := cs\<rparr>) tid content now =
     (fst (upload_result st tid content now), (snd (upload_result st tid content now))\<lparr>clients := cs\<rparr>)"
    by (rule upload_result_clients)
next
  assume "distinct (map fst (clients st)) \<and>
    (\<exists>info. map_of (clients st) cid = Some info \<and> sweep - last_seen info > 600)"
  then show "map_of (clients (cleanup_old_tasks st sweep)) cid = None"
    by (auto simp: cleanup_clients_lookup client_offline_def)
next
  assume "map_of (clients st) cid = None"
  then show "\<exists>detail. fst (get_task st cid t_seen t_read) = Inl (HTTPException 403 detail)"
    by (simp add: get_task_def)
next
  fix t
  assume "map_of (tasks st) tid = Some t \<and> client_id t = Some cid \<and> status t = READING"
  then show "fst (start_processing st tid cid) = Inr (OkBody ''Processing started'' tid)"
    by (simp add: start_processing_def)
next
  fix t
  assume "map_of (tasks st) (r_task_id r) = Some t \<and> client_id t = Some cid \<and> r_client_id r = cid"
  then show "fst (report_result st r now) = Inr (OkBody ''Result recorded'' (r_task_id r))"
    by (simp add: report_result_def Let_def)
next
  assume "map_of (completed_tasks st) tid \<noteq> None \<and> content \<noteq> []"
  then obtain t where "map_of (completed_tasks st) tid = Some t" and "content \<noteq> []" by auto
  with upload_result_archived [of st tid t content now]
  show "\<exists>body. fst (upload_result st tid content now) = Inr body" by auto
qed

theorem registration_checked_only_by_get_task_witness:
  "distinct (map fst (clients busy_state)) \<and>
   map_of (clients busy_state) ''w1'' = Some (demo_client ''w1'' 1) \<and>
   700 - last_seen (demo_client ''w1'' 1) > 600 \<and>
   map_of (clients purged_state) ''w1'' = None \<and>
   (\<exists>detail. fst (get_task purged_state ''w1'' 701 701) = Inl (HTTPException 403 detail)) \<and>
   fst (report_result purged_state (demo_result ''j1'' ''w1'' True) 702) =
     Inr (OkBody ''Result recorded'' ''j1'') \<and>
   map_of (completed_tasks (snd (report_result purged_state (demo_result ''j1'' ''w1'' True) 702))) ''j1'' \<noteq> None \<and>
   (\<exists>body. fst (upload_result (snd (report_result purged_state (demo_result ''j1'' ''w1'' True) 702))
                  ''j1'' ''JPEG'' 703) = Inr body) \<and>
   map_of (clients orphan_state) ''w1'' = None \<and>
   fst (start_processing orphan_state ''j1'' ''w1'') = Inr (OkBody ''Processing started'' ''j1'')"
proof -
  let ?r = "demo_result ''j1'' ''w1'' True"
  let ?t = "(new_task ''j1'' ''a.jpg'' ''a.lua'' 0)
              \<lparr>status := PROCESSING, client_id := Some ''w1'', read_at := Some 1\<rparr>"
  let ?o = "(new_task ''j1'' ''a.jpg'' ''a.lua'' 0)
              \<lparr>status := READING, client_id := Some ''w1'', read_at := Some 1\<rparr>"
  let ?st = "snd (report_result purged_state ?r 702)"
  have a: "distinct (map fst (clients busy_state))"
    and b: "map_of (clients busy_state) ''w1'' = Some (demo_client ''w1'' 1)"
    by (simp_all add: busy_state_eq)
  have c: "700 - last_seen (demo_client ''w1'' 1) > 600"
    by (simp add: demo_client_def)
  have d: "map_of (clients purged_state) ''w1'' = None"
    unfolding purged_state_def
    using registration_checked_only_by_get_task [where st = busy_state and cid = "''w1''" and sweep = 700] a b c by blast
  have e: "map_of (tasks purged_state) (r_task_id ?r) = Some ?t \<and> client_id ?t = Some ''w1'' \<and>
           r_client_id ?r = ''w1''"
    by (simp add: purged_state_eq demo_result_def)
  have n: "r_task_id ?r = ''j1''" by (simp add: demo_result_def)
  from registration_checked_only_by_get_task [where st = purged_state and cid = "''w1''" and r = ?r
         and now = 702 and t_seen = 701 and t_read = 701] d e
  have f: "(\<exists>detail. fst (get_task purged_state ''w1'' 701 701) = Inl (HTTPException 403 detail)) \<and>
           fst (report_result purged_state ?r 702) = Inr (OkBody ''Result recorded'' (r_task_id ?r))"
    by blast
  have g: "map_of (completed_tasks ?st) ''j1'' \<noteq> None"
    by (simp add: purged_state_eq report_result_def Let_def demo_result_def new_task_def)
  have h: "map_of (clients ?st) ''w1'' = None"
    by (simp add: purged_state_eq report_result_def Let_def demo_result_def new_task_def)
  from registration_checked_only_by_get_task [where st = ?st and tid = "''j1''" and cid = "''w1''"
         and content = "''JPEG''" and now = 703] g h
  have i: "\<exists>body. fst (upload_result ?st ''j1'' ''JPEG'' 703) = Inr body"
    by simp
  have j: "map_of (clients orphan_state) ''w1'' = None"
    and k: "map_of (tasks orphan_state) ''j1'' = Some ?o \<and> client_id ?o = Some ''w1'' \<and> status ?o = READING"
    by (simp_all add: orphan_state_def)
  from registration_checked_only_by_get_task [where st = orphan_state and tid = "''j1''" and cid = "''w1''"] j k
  have l: "fst (start_processing orphan_state ''j1'' ''w1'') = Inr (OkBody ''Processing started'' ''j1'')"
    by blast
  from a b c d f g i j l show ?thesis unfolding n by blast
qed

section \<open>Sequences of requests: every job is claimed at most once\<close>

lemma wf_tasks_lookup:
  "wf_tasks ts \<Longrightarrow> map_of ts k = Some t \<Longrightarrow>
     task_id t = k \<and> (status t = PENDING \<longrightarrow> client_id t = None)"
  by (auto simp: wf_tasks_def list_all_iff dest!: map_of_SomeD)

lemma wf_tasksI:
  assumes "distinct (map fst ts)"
    and "\<And>k t. map_of ts k = Some t \<Longrightarrow> task_id t = k \<and> (status t = PENDING \<longrightarrow> client_id t = None)"
  shows "wf_tasks ts"
  unfolding wf_tasks_def list_all_iff
proof (intro conjI ballI)
  show "distinct (map fst ts)" by fact
next
  fix x assume x: "x \<in> set ts"
  obtain k t where kt: "x = (k, t)" by (cases x)
  with x assms(1) have "map_of ts k = Some t" by (intro map_of_is_SomeI) auto
  from assms(2) [OF this] kt
  show "case x of (k, t) \<Rightarrow> task_id t = k \<and> (status t = PENDING \<longrightarrow> client_id t = None)"
    by simp
qed

lemma pending_ids_iff:
  "distinct (map fst ts) \<Longrightarrow>
     k \<in> pending_ids ts \<longleftrightarrow> (\<exists>t. map_of ts k = Some t \<and> status t = PENDING)"
  by (simp add: pending_ids_def collect_ids_iff)

lemma wf_tasks_map_entry:
  assumes "wf_tasks ts"
    and "\<And>t. task_id (f t) = task_id t"
    and "\<And>t. status (f t) \<noteq> PENDING"
  shows "wf_tasks (AList.map_entry k f ts)"
proof (rule wf_tasksI)
  show "distinct (map fst (AList.map_entry k f ts))"
    using assms(1) by (simp add: map_fst_map_entry wf_tasks_def)
next
  fix k' t
  assume "map_of (AList.map_entry k f ts) k' = Some t"
  then show "task_id t = k' \<and> (status t = PENDING \<longrightarrow> client_id t = None)"
    using wf_tasks_lookup [OF assms(1)] assms(2,3)
    by (auto simp: map_of_map_entry split: if_splits option.splits)
qed

lemma wf_tasks_delete:
  assumes "wf_tasks ts"
  shows "wf_tasks (AList.delete k ts)"
proof (rule wf_tasksI)
  show "distinct (map fst (AList.delete k ts))"
    using assms by (simp add: wf_tasks_def distinct_delete)
next
  fix k' t
  assume "map_of (AList.delete k ts) k' = Some t"
  then have "map_of ts k' = Some t"
    by (simp add: delete_conv' split: if_splits)
  then show "task_id t = k' \<and> (status t = PENDING \<longrightarrow> client_id t = None)"
    by (rule wf_tasks_lookup [OF assms])
qed

lemma pending_ids_map_entry_claim:
  assumes "distinct (map fst ts)" and "map_of ts k = Some t" and "status t = PENDING"
    and "status (f t) \<noteq> PENDING"
  shows "pending_ids (AList.map_entry k f ts) = pending_ids ts - {k}"
proof -
  have d: "distinct (map fst (AList.map_entry k f ts))"
    using assms(1) by (simp add: map_fst_map_entry)
  show ?thesis
    using assms(2-4)
    by (auto simp: pending_ids_iff [OF d] pending_ids_iff [OF assms(1)] map_of_map_entry
          split: if_splits)
qed

lemma pending_ids_map_entry_same:
  assumes "distinct (map fst ts)" and "map_of ts k = Some t" and "status t \<noteq> PENDING"
    and "status (f t) \<noteq> PENDING"
  shows "pending_ids (AList.map_entry k f ts) = pending_ids ts"
proof -
  have d: "distinct (map fst (AList.map_entry k f ts))"
    using assms(1) by (simp add: map_fst_map_entry)
  show ?thesis
    using assms(2-4)
    by (auto simp: pending_ids_iff [OF d] pending_ids_iff [OF assms(1)] map_of_map_entry
          split: if_splits)
qed

lemma pending_ids_delete:
  assumes "distinct (map fst ts)" and "map_of ts k = Some t" and "status t \<noteq> PENDING"
  shows "pending_ids (AList.delete k ts) = pending_ids ts"
proof -
  have d: "distinct (map fst (AList.delete k ts))"
    using assms(1) by (simp add: distinct_delete)
  show ?thesis
    using assms(2,3)
    by (auto simp: pending_ids_iff [OF d] pending_ids_iff [OF assms(1)] delete_conv'
          split: if_splits)
qed

lemma get_task_step:
  assumes wf: "wf_tasks (tasks st)"
  shows "(case fst (get_task st cid t_seen t_read) of
            Inr (Some v) \<Rightarrow>
              (\<exists>t. map_of (tasks st) (v_task_id v) = Some t \<and> status t = PENDING \<and>
                   tasks (snd (get_task st cid t_seen t_read)) =
                     AList.map_entry (v_task_id v) (mark_reading cid t_read) (tasks st))
          | _ \<Rightarrow> tasks (snd (get_task st cid t_seen t_read)) = tasks st)"
proof (cases "map_of (clients st) cid")
  case None
  then show ?thesis by (simp add: get_task_def)
next
  case (Some info)
  show ?thesis
  proof (cases "scan_tasks (tasks st) None None")
    case None
    with Some show ?thesis by (simp add: get_task_def)
  next
    case (Some r)
    obtain k t where r: "r = (k, t)" by (cases r)
    from scan_tasks_Some [OF Some [unfolded r]] obtain pre post
      where pp: "tasks st = pre @ (k, t) # post" "first_earliest pre post (k, t)" by blast
    from wf have d: "distinct (map fst (tasks st))" by (simp add: wf_tasks_def)
    from pp(1) d have l: "map_of (tasks st) k = Some t"
      by (intro map_of_is_SomeI) auto
    from wf_tasks_lookup [OF wf l] have id: "task_id t = k" by simp
    from pp(2) have p: "status t = PENDING" by (simp add: first_earliest_def)
    show ?thesis
      using \<open>map_of (clients st) cid = Some info\<close> Some r l id p
      by (simp add: get_task_def view_of_def mark_reading_def)
  qed
qed

lemma handle_step:
  assumes wf: "wf_tasks (tasks st)"
  shows "wf_tasks (tasks (snd (handle st rq))) \<and>
         (case fst (handle st rq) of
            None \<Rightarrow> pending_ids (tasks (snd (handle st rq))) = pending_ids (tasks st)
          | Some (w, j) \<Rightarrow> j \<in> pending_ids (tasks st) \<and>
              pending_ids (tasks (snd (handle st rq))) = pending_ids (tasks st) - {j})"
proof -
  from wf have d: "distinct (map fst (tasks st))" by (simp add: wf_tasks_def)
  show ?thesis
  proof (cases rq)
    case (GetTask cid t_seen t_read)
    let ?g = "get_task st cid t_seen t_read"
    have h: "handle st rq = (handed_out cid (fst ?g), snd ?g)"
      using GetTask by (simp add: split_beta)
    show ?thesis
    proof (cases "\<exists>v. fst ?g = Inr (Some v)")
      case True
      then obtain v where v: "fst ?g = Inr (Some v)" by blast
      with get_task_step [OF wf, of cid t_seen t_read] obtain t
        where t: "map_of (tasks st) (v_task_id v) = Some t" "status t = PENDING"
          "tasks (snd ?g) = AList.map_entry (v_task_id v) (mark_reading cid t_read) (tasks st)"
        by auto
      have w: "wf_tasks (tasks (snd ?g))"
        unfolding t(3) by (rule wf_tasks_map_entry [OF wf]) (simp_all add: mark_reading_def)
      have p: "pending_ids (tasks (snd ?g)) = pending_ids (tasks st) - {v_task_id v}"
        unfolding t(3) by (rule pending_ids_map_entry_claim [OF d t(1,2)]) (simp add: mark_reading_def)
      have m: "v_task_id v \<in> pending_ids (tasks st)"
        using t by (auto simp: pending_ids_iff [OF d])
      show ?thesis using w p m v by (simp add: h handed_out_def)
    next
      case False
      then have n: "handed_out cid (fst ?g) = None"
        by (auto simp: handed_out_def split: sum.splits option.splits)
      from False get_task_step [OF wf, of cid t_seen t_read]
      have "tasks (snd ?g) = tasks st"
        by (auto split: sum.splits option.splits)
      then show ?thesis using wf by (simp add: h n)
    qed
  next
    case (StartProcessing tid cid)
    show ?thesis
    proof (cases "\<exists>t. map_of (tasks st) tid = Some t \<and> client_id t = Some cid \<and> status t = READING")
      case True
      then obtain t where t: "map_of (tasks st) tid = Some t" "client_id t = Some cid" "status t = READING"
        by blast
      then have e: "tasks (snd (start_processing st tid cid)) =
          AList.map_entry tid (\<lambda>t. t\<lparr>status := PROCESSING\<rparr>) (tasks st)"
        by (simp add: start_processing_def)
      have w: "wf_tasks (tasks (snd (start_processing st tid cid)))"
        unfolding e by (rule wf_tasks_map_entry [OF wf]) simp_all
      have p: "pending_ids (tasks (snd (start_processing st tid cid))) = pending_ids (tasks st)"
        unfolding e by (rule pending_ids_map_entry_same [OF d t(1)]) (simp_all add: t(3))
      show ?thesis using w p StartProcessing by simp
    next
      case False
      then have "snd (start_processing st tid cid) = st"
        by (cases "map_of (tasks st) tid") (auto simp: start_processing_def)
      then show ?thesis using wf StartProcessing by simp
    qed
  next
    case (ReportResult r now)
    show ?thesis
    proof (cases "\<exists>t. map_of (tasks st) (r_task_id r) = Some t \<and> client_id t = Some (r_client_id r)")
      case True
      then obtain t where t: "map_of (tasks st) (r_task_id r) = Some t" "client_id t = Some (r_client_id r)"
        by blast
      then have e: "tasks (snd (report_result st r now)) = AList.delete (r_task_id r) (tasks st)"
        by (simp add: report_result_def Let_def)
      from wf_tasks_lookup [OF wf t(1)] t(2) have s: "status t \<noteq> PENDING" by auto
      have w: "wf_tasks (tasks (snd (report_result st r now)))"
        unfolding e by (rule wf_tasks_delete [OF wf])
      have p: "pending_ids (tasks (snd (report_result st r now))) = pending_ids (tasks st)"
        unfolding e by (rule pending_ids_delete [OF d t(1) s])
      show ?thesis using w p ReportResult by simp
    next
      case False
      then have "snd (report_result st r now) = st"
        by (cases "map_of (tasks st) (r_task_id r)") (auto simp: report_result_def Let_def)
      then show ?thesis using wf ReportResult by simp
    qed
  next
    case (UploadResult tid content now)
    have "tasks (snd (upload_result st tid content now)) = tasks st"
      by (cases "map_of (completed_tasks st) tid")
         (simp_all add: upload_result_def Let_def split: prod.splits)
    then show ?thesis using wf UploadResult by simp
  next
    case (RegisterClient client now)
    have "tasks (snd (register_client st client now)) = tasks st"
      by (simp add: register_client_def Let_def)
    then show ?thesis using wf RegisterClient by simp
  qed
qed

lemma run_claims:
  assumes "wf_tasks (tasks st)"
  shows "distinct (map snd (fst (run st rqs))) \<and>
         pending_ids (tasks st) = set (map snd (fst (run st rqs))) \<union> pending_ids (tasks (snd (run st rqs))) \<and>
         set (map snd (fst (run st rqs))) \<inter> pending_ids (tasks (snd (run st rqs))) = {}"
  using assms
proof (induction rqs arbitrary: st)
  case Nil
  then show ?case by simp
next
  case (Cons rq rqs)
  let ?st1 = "snd (handle st rq)"
  from handle_step [OF Cons.prems, of rq]
  have w1: "wf_tasks (tasks ?st1)"
    and s: "case fst (handle st rq) of
            None \<Rightarrow> pending_ids (tasks ?st1) = pending_ids (tasks st)
          | Some (w, j) \<Rightarrow> j \<in> pending_ids (tasks st) \<and>
              pending_ids (tasks ?st1) = pending_ids (tasks st) - {j}"
    by simp_all
  note ih = Cons.IH [OF w1]
  have r: "run st (rq # rqs) =
      ((case fst (handle st rq) of None \<Rightarrow> fst (run ?st1 rqs) | Some p \<Rightarrow> p # fst (run ?st1 rqs)),
       snd (run ?st1 rqs))"
    by (simp add: split_beta)
  show ?case
  proof (cases "fst (handle st rq)")
    case None
    with s have "pending_ids (tasks ?st1) = pending_ids (tasks st)" by simp
    with ih show ?thesis
      unfolding r None by simp
  next
    case (Some p)
    obtain w j where p: "p = (w, j)" by (cases p)
    from s Some p have j: "j \<in> pending_ids (tasks st)"
      and e: "pending_ids (tasks ?st1) = pending_ids (tasks st) - {j}" by simp_all
    from ih e have "j \<notin> set (map snd (fst (run ?st1 rqs)))"
      and "j \<notin> pending_ids (tasks (snd (run ?st1 rqs)))" by auto
    with ih j e show ?thesis
      unfolding r Some p by auto
  qed
qed


text \<open>The store is well formed at the start and stays so under submission and under the sweep.\<close>

lemma wf_tasks_empty: "wf_tasks (tasks empty_state)"
  by (simp add: wf_tasks_def empty_state_def)

lemma wf_tasks_submit_task:
  assumes "wf_tasks (tasks st)"
  shows "wf_tasks (tasks (snd (submit_task st new_id photo xmp now)))"
proof -
  have e: "tasks (snd (submit_task st new_id photo xmp now)) =
      AList.update new_id (new_task new_id photo xmp now) (tasks st)"
    by (simp add: submit_task_def Let_def)
  show ?thesis
    unfolding e
  proof (rule wf_tasksI)
    show "distinct (map fst (AList.update new_id (new_task new_id photo xmp now) (tasks st)))"
      using assms by (simp add: wf_tasks_def distinct_update)
  next
    fix k t
    assume "map_of (AList.update new_id (new_task new_id photo xmp now) (tasks st)) k = Some t"
    then show "task_id t = k \<and> (status t = PENDING \<longrightarrow> client_id t = None)"
      using wf_tasks_lookup [OF assms, of k t]
      by (auto simp: update_conv' new_task_def split: if_splits)
  qed
qed

lemma wf_tasks_cleanup_old_tasks:
  assumes "wf_tasks (tasks st)"
  shows "wf_tasks (tasks (cleanup_old_tasks st now))"
proof (rule wf_tasksI)
  show "distinct (map fst (tasks (cleanup_old_tasks st now)))"
    using assms by (simp add: cleanup_tasks_keys wf_tasks_def)
next
  fix k t
  from assms have d: "distinct (map fst (tasks st))" by (simp add: wf_tasks_def)
  assume "map_of (tasks (cleanup_old_tasks st now)) k = Some t"
  then obtain t0 where "map_of (tasks st) k = Some t0"
    and "t = (if reading_timed_out now t0 \<or> processing_timed_out now t0
              then reset_to_pending t0 else t0)"
    by (auto simp: cleanup_tasks_lookup [OF d])
  then show "task_id t = k \<and> (status t = PENDING \<longrightarrow> client_id t = None)"
    using wf_tasks_lookup [OF assms, of k t0]
    by (auto simp: reset_to_pending_def)
qed

text \<open>
  Claim C1. Take any sequence of requests of workers (claims, confirmations, result
  reports, uploads, registrations) handled against a well-formed store, with no sweep
  of the reaper in between. The job ids handed out by the claims of the sequence are
  pairwise distinct, they are exactly the jobs that were PENDING at the start and are
  no longer PENDING at the end, and none of them is PENDING at the end. Each single
  successful claim finds its job PENDING and leaves it READING, owned by the claimer.
\<close>

theorem each_job_claimed_once:
  assumes "wf_tasks (tasks st)"
  shows "distinct (map snd (fst (run st rqs))) \<and>
         pending_ids (tasks st) =
           set (map snd (fst (run st rqs))) \<union> pending_ids (tasks (snd (run st rqs))) \<and>
         set (map snd (fst (run st rqs))) \<inter> pending_ids (tasks (snd (run st rqs))) = {} \<and>
         (\<forall>cid t_seen t_read v.
            fst (get_task st cid t_seen t_read) = Inr (Some v) \<longrightarrow>
            (\<exists>t. map_of (tasks st) (v_task_id v) = Some t \<and> status t = PENDING \<and>
                 map_of (tasks (snd (get_task st cid t_seen t_read))) (v_task_id v) =
                   Some (t\<lparr>status := READING, client_id := Some cid, read_at := Some t_read\<rparr>)))"
proof -
  have "\<exists>t. map_of (tasks st) (v_task_id v) = Some t \<and> status t = PENDING \<and>
                 map_of (tasks (snd (get_task st cid t_seen t_read))) (v_task_id v) =
                   Some (t\<lparr>status := READING, client_id := Some cid, read_at := Some t_read\<rparr>)"
    if v: "fst (get_task st cid t_seen t_read) = Inr (Some v)" for cid t_seen t_read v
  proof -
    from get_task_step [OF assms, of cid t_seen t_read] v obtain t
      where t: "map_of (tasks st) (v_task_id v) = Some t" "status t = PENDING"
        "tasks (snd (get_task st cid t_seen t_read)) =
           AList.map_entry (v_task_id v) (mark_reading cid t_read) (tasks st)"
      by auto
    then have "map_of (tasks (snd (get_task st cid t_seen t_read))) (v_task_id v) =
                   Some (t\<lparr>status := READING, client_id := Some cid, read_at := Some t_read\<rparr>)"
      by (simp add: map_of_map_entry mark_reading_def)
    with t show ?thesis by blast
  qed
  with run_claims [OF assms, of rqs] show ?thesis by blast
qed


lemma run_demo_requests:
  "fst (run queue_state demo_requests) = [(''w1'', ''j2''), (''w2'', ''j3''), (''w1'', ''j1'')]"
  by code_simp

theorem each_job_claimed_once_witness:
  "wf_tasks (tasks queue_state) \<and>
   fst (run queue_state demo_requests) = [(''w1'', ''j2''), (''w2'', ''j3''), (''w1'', ''j1'')] \<and>
   distinct (map snd (fst (run queue_state demo_requests))) \<and>
   pending_ids (tasks queue_state) = {''j1'', ''j2'', ''j3''} \<and>
   pending_ids (tasks (snd (run queue_state demo_requests))) = {}"
proof -
  have a: "wf_tasks (tasks queue_state)"
    by (simp add: wf_tasks_def queue_state_def new_task_def)
  have b: "pending_ids (tasks queue_state) = {''j1'', ''j2'', ''j3''}"
    by (simp add: pending_ids_def collect_ids_def queue_state_def new_task_def)
  note main = each_job_claimed_once [OF a, of demo_requests]
  have c: "distinct (map snd (fst (run queue_state demo_requests)))"
    by (rule main [THEN conjunct1])
  have e: "pending_ids (tasks queue_state) =
      set (map snd (fst (run queue_state demo_requests))) \<union>
      pending_ids (tasks (snd (run queue_state demo_requests)))"
    by (rule main [THEN conjunct2, THEN conjunct1])
  have f: "set (map snd (fst (run queue_state demo_requests))) \<inter>
      pending_ids (tasks (snd (run queue_state demo_requests))) = {}"
    by (rule main [THEN conjunct2, THEN conjunct2, THEN conjunct1])
  have g: "set (map snd (fst (run queue_state demo_requests))) = pending_ids (tasks queue_state)"
    unfolding b run_demo_requests by auto
  from e f have d: "pending_ids (tasks (snd (run queue_state demo_requests))) = {}"
    unfolding g by blast
  show ?thesis
    by (intro conjI a b c d run_demo_requests)
qed

end
